theory Spec2Isabelle
  imports Main "HOL-Library.Word" "HOL-Library.Sublist"
begin

section \<open>Go values\<close>

text \<open>
  A Go \<open>string\<close> is a sequence of bytes and \<open>len\<close> counts bytes: it is a
  \<^typ>\<open>string\<close> here (a list of 8-bit characters) with \<^const>\<open>length\<close>.
  A Go \<open>int\<close> is a 64-bit two's complement integer (amd64, arm64): \<open>+\<close> and
  \<open>-\<close> wrap around and comparisons read the value signed (\<^const>\<open>sint\<close>).
\<close>

type_synonym go_int = "64 word"

definition nl :: char where
  "nl = CHR 0x0A"

definition esc :: char where
  "esc = CHR 0x1B"

subsection \<open>The ANSI constants and helpers\<close>

definition colorRed :: string where
  "colorRed = esc # ''[31m''"

definition colorYellow :: string where
  "colorYellow = esc # ''[33m''"

definition colorReset :: string where
  "colorReset = esc # ''[0m''"

definition colorGray :: string where
  "colorGray = esc # ''[90m''"

definition colorBoldGray :: string where
  "colorBoldGray = esc # ''[1;90m''"

definition formatItalic :: string where
  "formatItalic = esc # ''[3m''"

definition gray :: "string \<Rightarrow> string" where
  "gray s = colorGray @ s @ colorReset"

definition boldGray :: "string \<Rightarrow> string" where
  "boldGray s = colorBoldGray @ s @ colorReset"

definition red :: "string \<Rightarrow> string" where
  "red s = colorRed @ s @ colorReset"

definition yellow :: "string \<Rightarrow> string" where
  "yellow s = colorYellow @ s @ colorReset"

subsection \<open>Library functions the package calls\<close>

text \<open>
  \<open>strings.Join(lines, "\n")\<close> and \<open>strings.Split(s, "\n")\<close>, with the one-byte
  separator the package passes. \<open>Split\<close> of a string with \<open>n\<close> separators has
  \<open>n + 1\<close> parts; the empty string splits into one empty part.
\<close>

fun strings_Join :: "string list \<Rightarrow> char \<Rightarrow> string" where
  "strings_Join [] sep = []"
| "strings_Join [x] sep = x"
| "strings_Join (x # y # ys) sep = x @ sep # strings_Join (y # ys) sep"

fun strings_Split :: "string \<Rightarrow> char \<Rightarrow> string list" where
  "strings_Split [] sep = [[]]"
| "strings_Split (c # cs) sep =
     (if c = sep then [] # strings_Split cs sep
      else (case strings_Split cs sep of
              [] \<Rightarrow> [[c]]
            | p # ps \<Rightarrow> (c # p) # ps))"

text \<open>\<open>strings.Repeat(s, n)\<close> for a one-byte \<open>s\<close> and \<open>n \<ge> 0\<close>.\<close>

definition strings_Repeat :: "char \<Rightarrow> nat \<Rightarrow> string" where
  "strings_Repeat c n = replicate n c"

text \<open>
  \<open>fmt.Sprintf("%d", n)\<close>: the decimal digits of a signed integer, and
  \<open>fmt.Sprintf("%*d", w, n)\<close> for a width \<open>w \<ge> 0\<close>: the same, padded with
  spaces on the left up to \<open>w\<close> bytes.
\<close>

definition digit_char :: "nat \<Rightarrow> char" where
  "digit_char d = char_of (48 + d)"

fun digits :: "nat \<Rightarrow> string" where
  "digits n = (if n < 10 then [digit_char n] else digits (n div 10) @ [digit_char (n mod 10)])"

declare digits.simps [simp del]

definition sprint_d :: "go_int \<Rightarrow> string" where
  "sprint_d n = (if sint n < 0 then CHR ''-'' # digits (nat (- sint n)) else digits (nat (sint n)))"

definition sprint_wd :: "nat \<Rightarrow> go_int \<Rightarrow> string" where
  "sprint_wd w n = replicate (w - length (sprint_d n)) CHR '' '' @ sprint_d n"

text \<open>
  \<open>filepath.Base\<close> on a Unix path: the empty path gives \<open>"."\<close>, trailing slashes
  are dropped, the last element is returned, and a path of slashes only gives
  \<open>"/"\<close>.
\<close>

definition filepath_Base :: "string \<Rightarrow> string" where
  "filepath_Base path =
     (if path = [] then ''.''
      else let stripped = rev (dropWhile (\<lambda>c. c = CHR ''/'') (rev path));
               last_elem = rev (takeWhile (\<lambda>c. c \<noteq> CHR ''/'') (rev stripped))
           in if last_elem = [] then ''/'' else last_elem)"

section \<open>The source context reader\<close>

text \<open>
  The file system as the reader sees it. \<open>os.Open\<close> either fails or gives a file;
  a \<open>bufio.Scanner\<close> over the file yields its lines in order (\<open>scanned\<close>, each
  without its end-of-line marker) and then stops, either at end of file or on a
  read error (\<open>scan_err\<close>: a failed read, or a line longer than the scanner's
  buffer). \<open>scanner.Err()\<close> reports that error only once \<open>Scan\<close> has returned
  false.

  The loop counter \<open>currentLine\<close> is an \<^typ>\<open>int\<close>: a file has fewer than
  \<open>2^63\<close> lines, so the counter never wraps.
\<close>

datatype read_error = OpenError | ScanError | NoLinesInRange

record source_file =
  scanned :: "string list"
  scan_err :: bool

type_synonym filesystem = "string \<Rightarrow> source_file option"

text \<open>
  The \<open>for scanner.Scan()\<close> loop of \<open>readSourceContextLines\<close>. The result is the
  lines collected and whether the loop ended because \<open>Scan\<close> returned false (rather
  than by \<open>break\<close>).
\<close>

fun scan_loop :: "go_int \<Rightarrow> go_int \<Rightarrow> int \<Rightarrow> string list \<Rightarrow> string list \<Rightarrow> string list \<times> bool" where
  "scan_loop start endLine currentLine lines [] = (lines, True)"
| "scan_loop start endLine currentLine lines (t # ts) =
     (let currentLine = currentLine + 1;
          lines = (if currentLine \<ge> sint start \<and> currentLine \<le> sint endLine
                   then lines @ [t] else lines)
      in if currentLine > sint endLine then (lines, False)
         else scan_loop start endLine currentLine lines ts)"

definition readSourceContextLines ::
    "filesystem \<Rightarrow> string \<Rightarrow> go_int \<Rightarrow> go_int \<Rightarrow> read_error + (string list \<times> go_int)" where
  "readSourceContextLines fs filePath centerLine context =
     (case fs filePath of
        None \<Rightarrow> Inl OpenError
      | Some f \<Rightarrow>
          let start = centerLine - context;
              start = (if sint start < 1 then 1 else start);
              endLine = centerLine + context;
              (lines, exhausted) = scan_loop start endLine 0 [] (scanned f)
          in if exhausted \<and> scan_err f then Inl ScanError
             else if length lines = 0 then Inl NoLinesInRange
             else Inr (lines, start))"

text \<open>A file of twenty lines, and a file system that holds it under one name.\<close>

definition twenty_lines :: "string list" where
  "twenty_lines =
     [''l01'', ''l02'', ''l03'', ''l04'', ''l05'', ''l06'', ''l07'', ''l08'', ''l09'', ''l10'',
      ''l11'', ''l12'', ''l13'', ''l14'', ''l15'', ''l16'', ''l17'', ''l18'', ''l19'', ''l20'']"

definition fs20 :: filesystem where
  "fs20 p = (if p = ''a.go'' then Some \<lparr>scanned = twenty_lines, scan_err = False\<rparr> else None)"

section \<open>Frames and frame capture\<close>

record Frame =
  File :: string
  Line :: go_int
  Function :: string

text \<open>
  The calling goroutine's stack, as \<open>runtime.Caller\<close> and \<open>runtime.FuncForPC\<close>
  resolve it: level \<open>i\<close> of the list is what \<open>runtime.Caller(i)\<close> reports (its
  file and line), with the name \<open>runtime.FuncForPC(pc).Name()\<close> of its function,
  or \<open>None\<close> where \<open>FuncForPC\<close> returns nil. \<open>runtime.Caller(i)\<close> is not ok
  beyond the last level.
\<close>

record level =
  lfile :: string
  lline :: go_int
  lfunc :: "string option"

type_synonym stack = "level list"

definition runtime_Caller :: "stack \<Rightarrow> nat \<Rightarrow> level option" where
  "runtime_Caller st i = (if i < length st then Some (st ! i) else None)"

definition strings_HasPrefix :: "string \<Rightarrow> string \<Rightarrow> bool" where
  "strings_HasPrefix s pre = prefix pre s"

text \<open>The name \<open>newError\<close> gives a level: both variants of the package compute it alike.\<close>

definition funcName_of :: "level \<Rightarrow> string" where
  "funcName_of l = (case lfunc l of Some name \<Rightarrow> filepath_Base name | None \<Rightarrow> ''<unknown>'')"

definition frame_of :: "level \<Rightarrow> Frame" where
  "frame_of l = \<lparr>File = lfile l, Line = lline l, Function = funcName_of l\<rparr>"

text \<open>
  The capture loop of \<open>newError\<close> in \<open>src/tracerr2.go\<close> (the chain-aware variant):
  \<open>for i := skip; ; i++\<close>, left when \<open>runtime.Caller\<close> is not ok or when the
  function name starts with \<open>"runtime."\<close>.
\<close>

function capture :: "stack \<Rightarrow> nat \<Rightarrow> Frame list \<Rightarrow> Frame list" where
  "capture st i frames =
     (case runtime_Caller st i of
        None \<Rightarrow> frames
      | Some l \<Rightarrow>
          let funcName = funcName_of l
          in if strings_HasPrefix funcName ''runtime.'' then frames
             else capture st (i + 1)
                    (frames @ [\<lparr>File = lfile l, Line = lline l, Function = funcName\<rparr>]))"
  by pat_completeness auto
termination
  by (relation "measure (\<lambda>(st, i, frames). length st - i)")
    (auto simp: runtime_Caller_def split: if_splits)

declare capture.simps [simp del]

text \<open>
  The capture loop of \<open>newError\<close> in \<open>src/unnamed/part_001\<close> (the single-node
  variant): the same loop without the test on the function name.
\<close>

function capture_v1 :: "stack \<Rightarrow> nat \<Rightarrow> Frame list \<Rightarrow> Frame list" where
  "capture_v1 st i frames =
     (case runtime_Caller st i of
        None \<Rightarrow> frames
      | Some l \<Rightarrow>
          let funcName = funcName_of l
          in capture_v1 st (i + 1)
               (frames @ [\<lparr>File = lfile l, Line = lline l, Function = funcName\<rparr>]))"
  by pat_completeness auto
termination
  by (relation "measure (\<lambda>(st, i, frames). length st - i)")
    (auto simp: runtime_Caller_def split: if_splits)

declare capture_v1.simps [simp del]

section \<open>Errors and cause chains (src/tracerr2.go)\<close>

text \<open>
  \<open>Error\<close> is the struct. A value of the interface type \<open>error\<close> is the nil
  interface (\<open>NilError\<close>), a \<open>*Error\<close> (the nil pointer \<open>NilPtr\<close>, which as an
  interface value is not nil, or a pointer \<open>Ptr\<close> to a struct), or a value of
  another type (\<open>Foreign h\<close>, where \<open>h\<close> names the value). A \<open>*Error\<close> on its own
  is an \<open>Error option\<close>, \<open>None\<close> the nil pointer. The package writes the
  \<open>cause\<close> field of a fresh struct only, so a struct is a value here.
\<close>

datatype Error = MkError (Msg: string) (Frames: "Frame list") (cause: error)
  and error = NilError | NilPtr | Ptr Error | Foreign nat

datatype panic = NilDereference | IndexOutOfRange

text \<open>
  The methods of the values of other types are not code of the package: they are a
  parameter. \<open>foreign_Error h\<close> is what the call of \<open>Error()\<close> on the value \<open>h\<close>
  does: it returns a string or it panics (as on a nil pointer of a type whose
  method reads a field). \<open>foreign_Unwrap h\<close> is what \<open>errors.Unwrap\<close> does on
  \<open>h\<close>: what its \<open>Unwrap()\<close> returns, or that it panics, and the nil interface
  when the type has no such method. The methods are taken to return or panic, to do
  the same at every call and to write nothing. What \<open>Unwrap()\<close> returns is any
  error: the chain behind a value of another type need not end.
\<close>

record foreign_methods =
  foreign_Error :: "nat \<Rightarrow> panic + string"
  foreign_Unwrap :: "nat \<Rightarrow> panic + error"

text \<open>The conversion of a \<open>*Error\<close> to \<open>error\<close>, which Go inserts silently.\<close>

fun to_error :: "Error option \<Rightarrow> error" where
  "to_error None = NilPtr"
| "to_error (Some e) = Ptr e"

text \<open>
  \<open>newError\<close> returns a pointer to a fresh struct, never nil: the model returns
  the struct. \<open>skip\<close> is 2 at every call.
\<close>

definition newError :: "stack \<Rightarrow> string \<Rightarrow> nat \<Rightarrow> Error" where
  "newError st msg skip = MkError msg (capture st skip []) NilError"

definition New :: "stack \<Rightarrow> string \<Rightarrow> Error option" where
  "New st msg = Some (newError st msg 2)"

text \<open>
  \<open>Errorf\<close> and \<open>Wrapf\<close> build the message with \<open>fmt.Sprintf\<close>, which is a
  parameter here.
\<close>

definition Errorf :: "(string \<Rightarrow> 'a list \<Rightarrow> string) \<Rightarrow> stack \<Rightarrow> string \<Rightarrow> 'a list \<Rightarrow> Error option" where
  "Errorf sprintf st format args = Some (newError st (sprintf format args) 2)"

definition Wrap :: "stack \<Rightarrow> error \<Rightarrow> string \<Rightarrow> Error option" where
  "Wrap st err msg =
     (if err = NilError then None
      else let e = newError st msg 2;
               e = MkError (Msg e) (Frames e) err
           in Some e)"

definition Wrapf :: "(string \<Rightarrow> 'a list \<Rightarrow> string) \<Rightarrow> stack \<Rightarrow> error \<Rightarrow> string \<Rightarrow> 'a list \<Rightarrow> Error option" where
  "Wrapf sprintf st err format args =
     (if err = NilError then None
      else let e = newError st (sprintf format args) 2;
               e = MkError (Msg e) (Frames e) err
           in Some e)"

text \<open>
  The method \<open>Error()\<close> through the interface: a call on the nil interface or on
  a nil \<open>*Error\<close> (which reads \<open>e.cause\<close>) panics.
\<close>

fun error_Error :: "foreign_methods \<Rightarrow> error \<Rightarrow> panic + string" where
  "error_Error env NilError = Inl NilDereference"
| "error_Error env NilPtr = Inl NilDereference"
| "error_Error env (Ptr (MkError msg frames c)) =
     (if c \<noteq> NilError
      then (case error_Error env c of Inl p \<Rightarrow> Inl p | Inr s \<Rightarrow> Inr (msg @ '': '' @ s))
      else Inr msg)"
| "error_Error env (Foreign h) = foreign_Error env h"

definition Error_Error :: "foreign_methods \<Rightarrow> Error option \<Rightarrow> panic + string" where
  "Error_Error env e = error_Error env (to_error e)"

fun Error_Unwrap :: "Error option \<Rightarrow> panic + error" where
  "Error_Unwrap None = Inl NilDereference"
| "Error_Unwrap (Some e) = Inr (cause e)"

text \<open>
  \<open>errors.Unwrap\<close>: the \<open>Unwrap\<close> method of the value when its type has one,
  nil otherwise.
\<close>

fun errors_Unwrap :: "foreign_methods \<Rightarrow> error \<Rightarrow> panic + error" where
  "errors_Unwrap env NilError = Inr NilError"
| "errors_Unwrap env NilPtr = Error_Unwrap None"
| "errors_Unwrap env (Ptr e) = Error_Unwrap (Some e)"
| "errors_Unwrap env (Foreign h) = foreign_Unwrap env h"

text \<open>
  The type assertion \<open>currentErr.(*Error)\<close>: \<open>None\<close> when it is not ok,
  \<open>Some p\<close> with the pointer when it is.
\<close>

fun as_Error :: "error \<Rightarrow> Error option option" where
  "as_Error NilError = None"
| "as_Error NilPtr = Some None"
| "as_Error (Ptr e) = Some (Some e)"
| "as_Error (Foreign h) = None"

section \<open>Rendering\<close>

text \<open>
  The highlighting engine (\<open>quick.Highlight\<close> of the chroma library, called with
  the fixed lexer, formatter and style names) is not part of the repository: it is a
  parameter. For a block it gives what the call writes into \<open>highlightedBuf\<close> and
  whether it returns an error; it may have written part of its output when it
  fails. The call is taken to return.

  \<open>highlightedBuf\<close> is what the buffer holds when it is split into lines: the
  buffer is empty before the call and is never reset, so on an error the block is
  appended to what the engine wrote.
\<close>

type_synonym highlighter = "string \<Rightarrow> string \<times> bool"

definition highlightedBuf :: "highlighter \<Rightarrow> string \<Rightarrow> string" where
  "highlightedBuf hl codeBlock =
     (case hl codeBlock of
        (written, err) \<Rightarrow> if err then written @ codeBlock else written)"

text \<open>
  What a renderer writes is the list of the strings of its \<open>fmt.Fprintf\<close> calls, in
  order; the bytes the sink receives are their concatenation. The code does not read
  the results of \<open>fmt.Fprintf\<close>, so a write error of the sink changes nothing; the
  \<open>Write\<close> of the sink is taken to return. A renderer returns, or panics after
  what it has written, or (the loop over a chain) does neither.
\<close>

datatype outcome = Returned | Panicked

definition gutter_text :: "nat \<Rightarrow> go_int \<Rightarrow> string" where
  "gutter_text lineNumWidth lineNum = ''  '' @ sprint_wd lineNumWidth lineNum @ '' | ''"

text \<open>The \<open>for i, hLine := range highlightedLines\<close> loop of \<open>printFrame\<close>.\<close>

fun frame_lines :: "string list \<Rightarrow> go_int \<Rightarrow> nat \<Rightarrow> go_int \<Rightarrow> nat \<Rightarrow> string list \<Rightarrow> string list" where
  "frame_lines lines startLine lineNumWidth errorLineIndex i [] = []"
| "frame_lines lines startLine lineNumWidth errorLineIndex i (hLine # rest) =
     (if i \<ge> length lines
      then frame_lines lines startLine lineNumWidth errorLineIndex (i + 1) rest
      else let lineNum = startLine + of_nat i;
               isErrorLine = (of_nat i = errorLineIndex);
               gutter = (if isErrorLine then boldGray (gutter_text lineNumWidth lineNum)
                         else gray (gutter_text lineNumWidth lineNum))
           in (gutter @ hLine @ [nl])
              # frame_lines lines startLine lineNumWidth errorLineIndex (i + 1) rest)"

definition frame_header :: "Frame \<Rightarrow> string" where
  "frame_header frame =
     (let location = gray (filepath_Base (File frame) @ '':'' @ sprint_d (Line frame));
          function = yellow (Function frame)
      in ''  at '' @ function @ '' ('' @ location @ '')'' @ [nl])"

definition placeholder :: string where
  "placeholder = ''    '' @ gray ''Could not read source file'' @ [nl]"

definition printFrame :: "filesystem \<Rightarrow> highlighter \<Rightarrow> Frame \<Rightarrow> string list" where
  "printFrame fs hl frame =
     [frame_header frame] @
     (case readSourceContextLines fs (File frame) (Line frame) 1 of
        Inl err \<Rightarrow> [placeholder]
      | Inr (lines, startLine) \<Rightarrow>
          let codeBlock = strings_Join lines nl;
              highlightedLines = strings_Split (highlightedBuf hl codeBlock) nl;
              lineNumWidth = length (sprint_d (startLine + of_nat (length lines) - 1));
              errorLineIndex = Line frame - startLine
          in frame_lines lines startLine lineNumWidth errorLineIndex 0 highlightedLines)"

definition separator :: string where
  "separator = nl # formatItalic @ ''Caused by: '' @ colorReset"

text \<open>
  The loop of \<open>Fprint\<close>: \<open>for currentErr != nil\<close>, with the flag \<open>isFirst\<close>
  and what has been written so far. The loop need not end, so it is a partial
  function: \<open>None\<close> is the run that never leaves the loop.
\<close>

partial_function (option) Fprint_loop ::
    "foreign_methods \<Rightarrow> filesystem \<Rightarrow> highlighter \<Rightarrow> error \<Rightarrow> bool \<Rightarrow> string list
       \<Rightarrow> (string list \<times> outcome) option" where
  "Fprint_loop env fs hl currentErr isFirst w =
     (if currentErr = NilError then Some (w, Returned)
      else
        let w1 = w @ (if \<not> isFirst then [separator] else [])
        in case as_Error currentErr of
             Some None \<Rightarrow> Some (w1, Panicked)
           | Some (Some tracerrErr) \<Rightarrow>
               (let w2 = w1 @ [red (Msg tracerrErr) @ [nl]]
                         @ concat (map (printFrame fs hl) (Frames tracerrErr))
                in case errors_Unwrap env currentErr of
                     Inl p \<Rightarrow> Some (w2, Panicked)
                   | Inr next \<Rightarrow> Fprint_loop env fs hl next False w2)
           | None \<Rightarrow>
               (case error_Error env currentErr of
                  Inl p \<Rightarrow> Some (w1, Panicked)
                | Inr m \<Rightarrow>
                    (let w2 = w1 @ [red m @ [nl]]
                     in case errors_Unwrap env currentErr of
                          Inl p \<Rightarrow> Some (w2, Panicked)
                        | Inr next \<Rightarrow> Fprint_loop env fs hl next False w2)))"

declare Fprint_loop.simps [code]

definition Error_Fprint ::
    "foreign_methods \<Rightarrow> filesystem \<Rightarrow> highlighter \<Rightarrow> Error option \<Rightarrow> (string list \<times> outcome) option" where
  "Error_Fprint env fs hl e = Fprint_loop env fs hl (to_error e) True []"

section \<open>The single-node variant (src/unnamed/part_001)\<close>

text \<open>
  The second Go file of the repository declares the same package without cause
  chains: \<open>Error\<close> has a message and frames only, \<open>newError\<close> keeps every level
  of the stack, and \<open>Fprint\<close> renders one node, with a row of carets under the
  failing line. \<open>readSourceContextLines\<close> and the ANSI helpers are the same text in
  both files. The names of this variant end in \<open>_v1\<close>.
\<close>

record Error_v1 =
  Msg_v1 :: string
  Frames_v1 :: "Frame list"

definition newError_v1 :: "stack \<Rightarrow> string \<Rightarrow> nat \<Rightarrow> Error_v1" where
  "newError_v1 st msg skip = \<lparr>Msg_v1 = msg, Frames_v1 = capture_v1 st skip []\<rparr>"

definition New_v1 :: "stack \<Rightarrow> string \<Rightarrow> Error_v1 option" where
  "New_v1 st msg = Some (newError_v1 st msg 2)"

definition Errorf_v1 :: "(string \<Rightarrow> 'a list \<Rightarrow> string) \<Rightarrow> stack \<Rightarrow> string \<Rightarrow> 'a list \<Rightarrow> Error_v1 option" where
  "Errorf_v1 sprintf st format args = Some (newError_v1 st (sprintf format args) 2)"

fun Error_v1_Error :: "Error_v1 option \<Rightarrow> panic + string" where
  "Error_v1_Error None = Inl NilDereference"
| "Error_v1_Error (Some e) = Inr (Msg_v1 e)"

text \<open>The index expression \<open>lines[i]\<close>, which panics out of range.\<close>

definition index :: "'a list \<Rightarrow> nat \<Rightarrow> 'a option" where
  "index xs i = (if i < length xs then Some (xs ! i) else None)"

definition caret_gutter :: "nat \<Rightarrow> string" where
  "caret_gutter lineNumWidth = boldGray (''  '' @ strings_Repeat CHR '' '' lineNumWidth @ '' | '')"

text \<open>
  The \<open>for i, hLine := range highlightedLines\<close> loop of this variant's \<open>Fprint\<close>.
\<close>

fun frame_lines_v1 ::
    "string list \<Rightarrow> go_int \<Rightarrow> nat \<Rightarrow> go_int \<Rightarrow> nat \<Rightarrow> string list \<Rightarrow> string list \<times> outcome" where
  "frame_lines_v1 lines startLine lineNumWidth errorLineIndex i [] = ([], Returned)"
| "frame_lines_v1 lines startLine lineNumWidth errorLineIndex i (hLine # rest) =
     (if i \<ge> length lines
      then frame_lines_v1 lines startLine lineNumWidth errorLineIndex (i + 1) rest
      else let lineNum = startLine + of_nat i;
               isErrorLine = (of_nat i = errorLineIndex);
               gutter = (if isErrorLine then boldGray (gutter_text lineNumWidth lineNum)
                         else gray (gutter_text lineNumWidth lineNum));
               w1 = [gutter @ hLine @ [nl]]
           in if isErrorLine
              then let caretGutter = caret_gutter lineNumWidth
                   in (case index lines i of
                         None \<Rightarrow> (w1, Panicked)
                       | Some line \<Rightarrow>
                           let caretLine = red (strings_Repeat CHR ''^'' (length line));
                               w2 = w1 @ [caretGutter @ caretLine @ [nl]]
                           in (case frame_lines_v1 lines startLine lineNumWidth errorLineIndex (i + 1) rest of
                                 (w3, r) \<Rightarrow> (w2 @ w3, r)))
              else (case frame_lines_v1 lines startLine lineNumWidth errorLineIndex (i + 1) rest of
                      (w3, r) \<Rightarrow> (w1 @ w3, r)))"

text \<open>The body of the \<open>for _, frame := range e.Frames\<close> loop.\<close>

definition Fprint_frame_v1 :: "filesystem \<Rightarrow> highlighter \<Rightarrow> Frame \<Rightarrow> string list \<times> outcome" where
  "Fprint_frame_v1 fs hl frame =
     (case readSourceContextLines fs (File frame) (Line frame) 1 of
        Inl err \<Rightarrow> ([frame_header frame, placeholder], Returned)
      | Inr (lines, startLine) \<Rightarrow>
          let codeBlock = strings_Join lines nl;
              highlightedLines = strings_Split (highlightedBuf hl codeBlock) nl;
              lineNumWidth = length (sprint_d (startLine + of_nat (length lines) - 1));
              errorLineIndex = Line frame - startLine
          in (case frame_lines_v1 lines startLine lineNumWidth errorLineIndex 0 highlightedLines of
                (w, r) \<Rightarrow> (frame_header frame # w, r)))"



section \<open>Notions used in the statements\<close>

text \<open>
  The lines of a file whose 1-based index lies between \<open>start\<close> and \<open>endLine\<close>,
  both read as signed integers.
\<close>

definition window :: "string list \<Rightarrow> go_int \<Rightarrow> go_int \<Rightarrow> string list" where
  "window ls start endLine =
     [ls ! i. i \<leftarrow> [0..<length ls], sint start \<le> int i + 1 \<and> int i + 1 \<le> sint endLine]"

text \<open>
  A stack as \<open>newError\<close> finds it when \<open>main.main\<close> calls \<open>main.Gamma\<close>, which
  calls \<open>New\<close>: levels 0 and 1 are \<open>newError\<close> and \<open>New\<close> themselves, the last
  two are the runtime's.
\<close>

definition example_stack :: stack where
  "example_stack =
     [\<lparr>lfile = ''/src/tracerr/tracerr2.go'', lline = 82, lfunc = Some ''github.com/xplshn/tracerr2.newError''\<rparr>,
      \<lparr>lfile = ''/src/tracerr/tracerr2.go'', lline = 46, lfunc = Some ''github.com/xplshn/tracerr2.New''\<rparr>,
      \<lparr>lfile = ''/app/main.go'', lline = 42, lfunc = Some ''main.Gamma''\<rparr>,
      \<lparr>lfile = ''/app/main.go'', lline = 18, lfunc = Some ''main.main''\<rparr>,
      \<lparr>lfile = ''/go/src/runtime/proc.go'', lline = 283, lfunc = Some ''runtime.main''\<rparr>,
      \<lparr>lfile = ''/go/src/runtime/asm_amd64.s'', lline = 1700, lfunc = Some ''runtime.goexit''\<rparr>]"

text \<open>
  The cause chain of an error: the error, then what \<open>errors.Unwrap\<close> finds behind
  it, and so on up to the nil interface. A value on which \<open>errors.Unwrap\<close> panics
  (a nil \<open>*Error\<close> is one) is the last of its chain, since nothing is behind it.
  \<open>chain env err ns\<close> holds when the chain of \<open>err\<close> is the list \<open>ns\<close>; a chain
  that never ends has no list.
\<close>

inductive chain :: "foreign_methods \<Rightarrow> error \<Rightarrow> error list \<Rightarrow> bool" for env where
  chain_nil: "chain env NilError []"
| chain_step:
    "cur \<noteq> NilError \<Longrightarrow> errors_Unwrap env cur = Inr next \<Longrightarrow> chain env next ns
       \<Longrightarrow> chain env cur (cur # ns)"
| chain_stop:
    "cur \<noteq> NilError \<Longrightarrow> errors_Unwrap env cur = Inl p \<Longrightarrow> chain env cur [cur]"

text \<open>
  \<open>renders\<close>: the message of the value can be had without a panic (the field
  \<open>Msg\<close> of a node, what \<open>Error()\<close> returns otherwise). \<open>body_returns\<close>: no
  call made for this value panics, neither that one nor \<open>errors.Unwrap\<close>.
\<close>

fun renders :: "foreign_methods \<Rightarrow> error \<Rightarrow> bool" where
  "renders env NilError = True"
| "renders env NilPtr = False"
| "renders env (Ptr e) = True"
| "renders env (Foreign h) = (case foreign_Error env h of Inl p \<Rightarrow> False | Inr m \<Rightarrow> True)"

definition body_returns :: "foreign_methods \<Rightarrow> error \<Rightarrow> bool" where
  "body_returns env n =
     (renders env n \<and> (case errors_Unwrap env n of Inl p \<Rightarrow> False | Inr next \<Rightarrow> True))"

text \<open>
  What \<open>Fprint\<close> writes for one value of the chain, after the separator: the
  message and the frames of a node, the message of a value of another type, and
  nothing when the message cannot be had.
\<close>

fun node_lines :: "foreign_methods \<Rightarrow> filesystem \<Rightarrow> highlighter \<Rightarrow> error \<Rightarrow> string list" where
  "node_lines env fs hl (Ptr e) = (red (Msg e) @ [nl]) # concat (map (printFrame fs hl) (Frames e))"
| "node_lines env fs hl (Foreign h) =
     (case foreign_Error env h of Inl p \<Rightarrow> [] | Inr m \<Rightarrow> [red m @ [nl]])"
| "node_lines env fs hl NilPtr = []"
| "node_lines env fs hl NilError = []"

text \<open>
  The line \<open>Fprint\<close> and \<open>printFrame\<close> write for line \<open>i\<close> of the block, and the
  row of carets of the single-node variant.
\<close>

definition source_line :: "go_int \<Rightarrow> nat \<Rightarrow> go_int \<Rightarrow> nat \<Rightarrow> string \<Rightarrow> string" where
  "source_line startLine lineNumWidth errorLineIndex i hLine =
     (if of_nat i = errorLineIndex
      then boldGray (gutter_text lineNumWidth (startLine + of_nat i))
      else gray (gutter_text lineNumWidth (startLine + of_nat i))) @ hLine @ [nl]"

definition caret_row :: "nat \<Rightarrow> string \<Rightarrow> string" where
  "caret_row lineNumWidth line =
     caret_gutter lineNumWidth @ red (strings_Repeat CHR ''^'' (length line)) @ [nl]"

text \<open>
  The non-colour characters of a text: what is left when every colour code is taken
  out. A colour code is the escape character, \<open>[\<close>, any digits and semicolons,
  and \<open>m\<close> (the sequences of the ANSI constants above and of a terminal
  formatter). An escape character that starts no such code stays.
\<close>

definition is_param :: "char \<Rightarrow> bool" where
  "is_param c \<longleftrightarrow> c \<in> set ''0123456789;''"

definition color_code_rest :: "string \<Rightarrow> string option" where
  "color_code_rest s =
     (case s of
        e # b # r \<Rightarrow>
          if e = esc \<and> b = CHR ''[''
          then (case dropWhile is_param r of
                  m # r' \<Rightarrow> if m = CHR ''m'' then Some r' else None
                | [] \<Rightarrow> None)
          else None
      | _ \<Rightarrow> None)"

lemma color_code_rest_shorter:
  "color_code_rest s = Some r \<Longrightarrow> length r < length s"
proof -
  assume a: "color_code_rest s = Some r"
  then obtain e b q where s: "s = e # b # q"
    by (cases s; cases "tl s") (auto simp: color_code_rest_def)
  from a s obtain m where "dropWhile is_param q = m # r"
    by (auto simp: color_code_rest_def split: if_splits list.splits)
  then have "length (m # r) \<le> length q"
    using length_dropWhile_le [of is_param q] by simp
  with s show ?thesis by simp
qed

function strip_ansi :: "string \<Rightarrow> string" where
  "strip_ansi [] = []"
| "strip_ansi (c # cs) =
     (case color_code_rest (c # cs) of
        Some r \<Rightarrow> strip_ansi r
      | None \<Rightarrow> c # strip_ansi cs)"
  by pat_completeness auto
termination
  by (relation "measure length") (auto dest: color_code_rest_shorter)

declare strip_ansi.simps(2) [simp del]

text \<open>A highlighter that colours the block and ends it with a newline.\<close>

definition hl_colour :: highlighter where
  "hl_colour s = (colorYellow @ s @ colorReset @ [nl], False)"

text \<open>
  The number of characters of a line of UTF-8 text: the bytes that do not continue
  a character (a continuation byte is \<open>0x80\<close> to \<open>0xBF\<close>).
\<close>

definition utf8_characters :: "string \<Rightarrow> nat" where
  "utf8_characters s =
     length (filter (\<lambda>c. \<not> (128 \<le> (of_char c :: nat) \<and> (of_char c :: nat) < 192)) s)"

text \<open>
  A line that holds one character in two bytes (e with an acute accent, in UTF-8), a
  file system with a file of that one line, and a frame at it.
\<close>

definition e_acute :: string where
  "e_acute = [CHR 0xC3, CHR 0xA9]"

definition fs_utf8 :: filesystem where
  "fs_utf8 p = (if p = ''u.go'' then Some \<lparr>scanned = [e_acute], scan_err = False\<rparr> else None)"

definition frame_utf8 :: Frame where
  "frame_utf8 = \<lparr>File = ''u.go'', Line = 1, Function = ''main.main''\<rparr>"

text \<open>Frames, highlighters and errors for the examples.\<close>

definition frame10 :: Frame where
  "frame10 = \<lparr>File = ''a.go'', Line = 10, Function = ''main.Gamma''\<rparr>"


definition hl_fail :: highlighter where
  "hl_fail s = ([], True)"

text \<open>An engine that fails after it has written \<open>PART\<close>.\<close>

definition hl_partial :: highlighter where
  "hl_partial s = (''PART'', True)"

definition hl_more :: highlighter where
  "hl_more s = (s @ [nl] @ ''surplus'', False)"

text \<open>
  Values of other types: \<open>0\<close> behaves as \<open>io.EOF\<close> does (a message, nothing
  behind it); \<open>1\<close> has itself behind it; \<open>Error()\<close> of \<open>2\<close> panics and \<open>0\<close>
  is behind it; \<open>3\<close> has a message and its \<open>Unwrap()\<close> panics; every other
  value is a nil pointer of a type whose methods read a field, so both calls panic.
\<close>

definition foreign_ex :: foreign_methods where
  "foreign_ex =
     \<lparr>foreign_Error =
        (\<lambda>h. if h = 0 then Inr ''EOF'' else if h = 1 then Inr ''again''
              else if h = 3 then Inr ''half'' else Inl NilDereference),
      foreign_Unwrap =
        (\<lambda>h. if h = 0 then Inr NilError else if h = 1 then Inr (Foreign 1)
              else if h = 2 then Inr (Foreign 0) else Inl NilDereference)\<rparr>"

definition chain_of_three :: "Error option" where
  "chain_of_three =
     Wrap example_stack
       (to_error (Wrap example_stack (to_error (New example_stack ''c'')) ''b'')) ''a''"





definition silent_middle :: "Error option" where
  "silent_middle = Wrap example_stack (Foreign 2) ''a''"



section \<open>Properties of the source context reader\<close>

lemma concat_map_upt_Cons:
  "concat (map (\<lambda>i. g i ((t # ts) ! i)) [0..<Suc (length ts)]) =
     g 0 t @ concat (map (\<lambda>i. g (Suc i) (ts ! i)) [0..<length ts])"
proof -
  have "[0..<Suc (length ts)] = 0 # map Suc [0..<length ts]"
    by (simp add: upt_conv_Cons map_Suc_upt del: upt_Suc)
  then show ?thesis by (simp add: comp_def del: upt_Suc)
qed

lemma scan_loop_lines:
  "fst (scan_loop s e k acc ts) =
     acc @ [ts ! i. i \<leftarrow> [0..<length ts], sint s \<le> k + int i + 1 \<and> k + int i + 1 \<le> sint e]"
proof (induction ts arbitrary: k acc)
  case Nil
  then show ?case by simp
next
  case (Cons t ts)
  let ?P = "\<lambda>j. sint s \<le> k + j + 1 \<and> k + j + 1 \<le> sint e"
  have split: "[(t # ts) ! i. i \<leftarrow> [0..<length (t # ts)], ?P (int i)] =
      (if ?P 0 then [t] else []) @ [ts ! i. i \<leftarrow> [0..<length ts], ?P (int (Suc i))]"
    using concat_map_upt_Cons [of "\<lambda>i x. if ?P (int i) then [x] else []" t ts]
    by simp
  show ?case
  proof (cases "k + 1 > sint e")
    case True
    then have "\<And>i. \<not> (k + int i + 1 \<le> sint e)" by linarith
    then show ?thesis using True by (simp add: Let_def)
  next
    case False
    have "fst (scan_loop s e k acc (t # ts)) =
        fst (scan_loop s e (k + 1) (if ?P 0 then acc @ [t] else acc) ts)"
      using False by (simp add: Let_def)
    also have "\<dots> = (if ?P 0 then acc @ [t] else acc) @
        [ts ! i. i \<leftarrow> [0..<length ts], ?P (int (Suc i))]"
      by (simp add: Cons.IH add.assoc add.commute)
    finally show ?thesis
      unfolding split by simp
  qed
qed

text \<open>
  C3, as amended. For a file that opens and scans without error, every centre line
  and every radius (in Go's wrapping arithmetic): with \<open>startLine\<close> the larger of 1
  and \<open>centerLine - radius\<close>, the reader returns \<open>startLine\<close> and exactly the lines
  whose 1-based index lies in \<open>[startLine, centerLine + radius]\<close> when the file has
  such a line, and fails with \<open>NoLinesInRange\<close> when it has none. A centre line
  beyond the end of the file therefore fails only when \<open>centerLine - radius\<close> is
  beyond the end too.
\<close>

theorem readSourceContextLines_window:
  assumes "fs path = Some f" and "\<not> scan_err f"
  shows "readSourceContextLines fs path centerLine radius =
     (let startLine = (if sint (centerLine - radius) < 1 then 1 else centerLine - radius);
          found = window (scanned f) startLine (centerLine + radius)
      in if found = [] then Inl NoLinesInRange else Inr (found, startLine))"
proof -
  let ?start = "if sint (centerLine - radius) < 1 then 1 else centerLine - radius"
  obtain ls ex where sl:
    "scan_loop ?start (centerLine + radius) 0 [] (scanned f) = (ls, ex)"
    by (cases "scan_loop ?start (centerLine + radius) 0 [] (scanned f)")
  have "ls = window (scanned f) ?start (centerLine + radius)"
    using scan_loop_lines [of ?start "centerLine + radius" 0 "[]" "scanned f"] sl
    by (simp add: window_def)
  then show ?thesis
    using assms sl by (simp add: readSourceContextLines_def Let_def)
qed

text \<open>
  On the file of twenty lines: centre 10 and radius 1 give lines 9 to 11 from line 9,
  centre 1 gives lines 1 and 2 from line 1, and centre 22 fails.
\<close>

theorem readSourceContextLines_window_witness:
  "fs20 ''a.go'' = Some \<lparr>scanned = twenty_lines, scan_err = False\<rparr>
   \<and> \<not> scan_err \<lparr>scanned = twenty_lines, scan_err = False\<rparr>
   \<and> readSourceContextLines fs20 ''a.go'' 10 1 = Inr ([''l09'', ''l10'', ''l11''], 9)
   \<and> readSourceContextLines fs20 ''a.go'' 1 1 = Inr ([''l01'', ''l02''], 1)
   \<and> readSourceContextLines fs20 ''a.go'' 22 1 = Inl NoLinesInRange"
proof -
  have f: "fs20 ''a.go'' = Some \<lparr>scanned = twenty_lines, scan_err = False\<rparr>"
    by (simp add: fs20_def)
  have ok: "\<not> scan_err \<lparr>scanned = twenty_lines, scan_err = False\<rparr>"
    by simp
  note th = readSourceContextLines_window
    [of fs20 "''a.go''" "\<lparr>scanned = twenty_lines, scan_err = False\<rparr>", OF f ok]
  have w1: "window twenty_lines 9 11 = [''l09'', ''l10'', ''l11'']"
    by (simp add: window_def twenty_lines_def)
  have w2: "window twenty_lines 1 2 = [''l01'', ''l02'']"
    by (simp add: window_def twenty_lines_def)
  have w3: "window twenty_lines 21 23 = []"
    by (simp add: window_def twenty_lines_def)
  have a: "readSourceContextLines fs20 ''a.go'' 10 1 = Inr ([''l09'', ''l10'', ''l11''], 9)"
    using th [of 10 1] by (simp add: w1)
  have b: "readSourceContextLines fs20 ''a.go'' 1 1 = Inr ([''l01'', ''l02''], 1)"
    using th [of 1 1] by (simp add: w2)
  have c: "readSourceContextLines fs20 ''a.go'' 22 1 = Inl NoLinesInRange"
    using th [of 22 1] by (simp add: w3)
  from f ok a b c show ?thesis by simp
qed

text \<open>
  The claim as written fails: centre line 21 is beyond the end of the file of twenty
  lines, and with radius 1 the reader returns line 20 from line 20, not an error.
\<close>

theorem readSourceContextLines_beyond_eof:
  "int (length twenty_lines) < sint (21 :: go_int)
   \<and> readSourceContextLines fs20 ''a.go'' 21 1 = Inr ([''l20''], 20)"
  by code_simp

section \<open>Properties of frame capture\<close>

lemma frame_of_alt: "\<lparr>File = lfile l, Line = lline l, Function = funcName_of l\<rparr> = frame_of l"
  by (simp add: frame_of_def)

lemma capture_takeWhile:
  "capture st i frames = frames @ map frame_of (takeWhile (\<lambda>l. \<not> strings_HasPrefix (funcName_of l) ''runtime.'') (drop i st))"
proof (induction st i frames rule: capture.induct)
  case (1 st i frames)
  show ?case
  proof (cases "i < length st")
    case False
    then show ?thesis
      by (subst capture.simps) (simp add: runtime_Caller_def)
  next
    case True
    then have d: "drop i st = st ! i # drop (i + 1) st"
      by (simp add: Cons_nth_drop_Suc)
    show ?thesis
    proof (cases "\<not> strings_HasPrefix (funcName_of (st ! i)) ''runtime.''")
      case False
      then show ?thesis
        using True d by (subst capture.simps) (simp add: runtime_Caller_def)
    next
      case u: True
      have "capture st i frames = capture st (i + 1) (frames @ [frame_of (st ! i)])"
        using True u
        by (subst capture.simps) (simp add: runtime_Caller_def frame_of_def)
      also have "\<dots> = (frames @ [frame_of (st ! i)]) @ map frame_of (takeWhile (\<lambda>l. \<not> strings_HasPrefix (funcName_of l) ''runtime.'') (drop (i + 1) st))"
        using "1.IH" [of "st ! i" "funcName_of (st ! i)"] True u
        by (simp add: runtime_Caller_def frame_of_alt)
      finally show ?thesis
        using d u by simp
    qed
  qed
qed

lemma capture_v1_all:
  "capture_v1 st i frames = frames @ map frame_of (drop i st)"
proof (induction st i frames rule: capture_v1.induct)
  case (1 st i frames)
  show ?case
  proof (cases "i < length st")
    case False
    then show ?thesis
      by (subst capture_v1.simps) (simp add: runtime_Caller_def)
  next
    case True
    then have d: "drop i st = st ! i # drop (i + 1) st"
      by (simp add: Cons_nth_drop_Suc)
    have "capture_v1 st i frames = capture_v1 st (i + 1) (frames @ [frame_of (st ! i)])"
      using True
      by (subst capture_v1.simps) (simp add: runtime_Caller_def frame_of_def)
    also have "\<dots> = (frames @ [frame_of (st ! i)]) @ map frame_of (drop (i + 1) st)"
      using "1.IH" [of "st ! i" "funcName_of (st ! i)"] True
      by (simp add: runtime_Caller_def frame_of_alt)
    finally show ?thesis
      using d by simp
  qed
qed

lemma Frames_newError:
  "Frames (newError st msg 2) =
     map frame_of (takeWhile (\<lambda>l. \<not> strings_HasPrefix (funcName_of l) ''runtime.'') (drop 2 st))"
  by (simp add: newError_def capture_takeWhile)

text \<open>
  C2, as amended. For every invocation of frame capture in \<open>src/tracerr2.go\<close>
  (\<open>New\<close>, \<open>Errorf\<close>, \<open>Wrap\<close>, \<open>Wrapf\<close>) and every stack: the frames of the
  node are the levels from the caller of the constructor up to, and without, the
  first level whose function name starts with \<open>"runtime."\<close>; so no frame of the node
  has such a name.
\<close>

theorem capture_stops_at_runtime:
  assumes "r \<in> {New st msg, Errorf sprintf st format args, Wrap st err msg,
                 Wrapf sprintf st err format args}"
    and "r = Some e"
  shows "Frames e =
           map frame_of (takeWhile (\<lambda>l. \<not> strings_HasPrefix (funcName_of l) ''runtime.'') (drop 2 st))
         \<and> (\<forall>f \<in> set (Frames e). \<not> strings_HasPrefix (Function f) ''runtime.'')"
proof -
  let ?user = "\<lambda>l. \<not> strings_HasPrefix (funcName_of l) ''runtime.''"
  have frames: "Frames e = map frame_of (takeWhile ?user (drop 2 st))"
    using assms
    by (auto simp: New_def Errorf_def Wrap_def Wrapf_def Let_def Frames_newError newError_def
        capture_takeWhile split: if_splits)
  have "\<not> strings_HasPrefix (Function f) ''runtime.''" if "f \<in> set (Frames e)" for f
  proof -
    from that frames obtain l where "l \<in> set (takeWhile ?user (drop 2 st))" and "f = frame_of l"
      by auto
    then show ?thesis
      by (auto simp: frame_of_def dest: set_takeWhileD)
  qed
  with frames show ?thesis by blast
qed

text \<open>
  On the example stack \<open>New\<close> keeps \<open>main.Gamma\<close> and \<open>main.main\<close> and stops at
  \<open>runtime.main\<close>.
\<close>

theorem capture_stops_at_runtime_witness:
  "New example_stack ''boom'' \<in> {New example_stack ''boom'', Errorf (\<lambda>f a. f) example_stack ''boom'' ([] :: unit list),
       Wrap example_stack NilError ''boom'', Wrapf (\<lambda>f a. f) example_stack NilError ''boom'' ([] :: unit list)}
   \<and> New example_stack ''boom'' =
       Some (MkError ''boom''
         [\<lparr>File = ''/app/main.go'', Line = 42, Function = ''main.Gamma''\<rparr>,
          \<lparr>File = ''/app/main.go'', Line = 18, Function = ''main.main''\<rparr>] NilError)
   \<and> \<not> strings_HasPrefix ''main.Gamma'' ''runtime.''
   \<and> \<not> strings_HasPrefix ''main.main'' ''runtime.''"
proof -
  let ?e = "newError example_stack ''boom'' 2"
  have m: "New example_stack ''boom'' \<in> {New example_stack ''boom'', Errorf (\<lambda>f a. f) example_stack ''boom'' ([] :: unit list),
       Wrap example_stack NilError ''boom'', Wrapf (\<lambda>f a. f) example_stack NilError ''boom'' ([] :: unit list)}"
    by simp
  have r: "New example_stack ''boom'' = Some ?e"
    by (simp add: New_def)
  have stack: "map frame_of (takeWhile (\<lambda>l. \<not> strings_HasPrefix (funcName_of l) ''runtime.'') (drop 2 example_stack)) =
         [\<lparr>File = ''/app/main.go'', Line = 42, Function = ''main.Gamma''\<rparr>,
          \<lparr>File = ''/app/main.go'', Line = 18, Function = ''main.main''\<rparr>]"
    by (simp add: example_stack_def frame_of_def funcName_of_def filepath_Base_def strings_HasPrefix_def)
  from capture_stops_at_runtime [OF m r]
  have fr: "Frames ?e =
         [\<lparr>File = ''/app/main.go'', Line = 42, Function = ''main.Gamma''\<rparr>,
          \<lparr>File = ''/app/main.go'', Line = 18, Function = ''main.main''\<rparr>]"
    and no: "\<forall>f \<in> set (Frames ?e). \<not> strings_HasPrefix (Function f) ''runtime.''"
    by (simp_all add: stack)
  have e: "?e = MkError ''boom'' (Frames ?e) NilError"
    by (simp add: newError_def)
  from no fr have "\<not> strings_HasPrefix ''main.Gamma'' ''runtime.''" "\<not> strings_HasPrefix ''main.main'' ''runtime.''"
    by simp_all
  with m r e fr show ?thesis by simp
qed

text \<open>
  The claim as written fails on the \<open>newError\<close> of \<open>src/unnamed/part_001\<close>, which
  it names as a source: on the same stack that loop keeps the frames of
  \<open>runtime.main\<close> and \<open>runtime.goexit\<close>.
\<close>

theorem newError_v1_keeps_runtime_frames:
  "Frames_v1 (newError_v1 example_stack ''boom'' 2) =
     [\<lparr>File = ''/app/main.go'', Line = 42, Function = ''main.Gamma''\<rparr>,
      \<lparr>File = ''/app/main.go'', Line = 18, Function = ''main.main''\<rparr>,
      \<lparr>File = ''/go/src/runtime/proc.go'', Line = 283, Function = ''runtime.main''\<rparr>,
      \<lparr>File = ''/go/src/runtime/asm_amd64.s'', Line = 1700, Function = ''runtime.goexit''\<rparr>]
   \<and> strings_HasPrefix ''runtime.main'' ''runtime.''"
  by (simp add: newError_v1_def capture_v1_all example_stack_def frame_of_def funcName_of_def
        filepath_Base_def strings_HasPrefix_def)

section \<open>Properties of the constructors and of the chain methods\<close>

text \<open>
  C1. For every error \<open>E1\<close> (any value of \<open>error\<close> but the nil interface) and every
  message \<open>M2\<close>, \<open>Wrap(E1, M2)\<close> is a node \<open>E2\<close> whose \<open>Unwrap()\<close> returns
  \<open>E1\<close> itself, with its message, frames and cause as they were, and whose
  \<open>Error()\<close> is \<open>M2\<close>, \<open>": "\<close> and \<open>E1.Error()\<close> (and panics exactly when
  \<open>E1.Error()\<close> does). The node \<open>E1\<close> is not modified: \<open>Wrap\<close> writes the
  fields of the fresh node only. This holds whatever the methods of the values of
  other types do.
\<close>

theorem Wrap_Unwrap_Error:
  assumes "E1 \<noteq> NilError"
  shows "\<exists>E2. Wrap st E1 M2 = Some E2
              \<and> Error_Unwrap (Some E2) = Inr E1
              \<and> Error_Error env (Some E2) =
                  (case error_Error env E1 of Inl p \<Rightarrow> Inl p | Inr M1 \<Rightarrow> Inr (M2 @ '': '' @ M1))"
  using assms
  by (simp add: Wrap_def Let_def newError_def Error_Error_def)

text \<open>Wrapping \<open>New("inner")\<close> with \<open>"outer"\<close> gives the message \<open>"outer: inner"\<close>.\<close>

theorem Wrap_Unwrap_Error_witness:
  "to_error (New example_stack ''inner'') \<noteq> NilError
   \<and> Error_Unwrap (Wrap example_stack (to_error (New example_stack ''inner'')) ''outer'')
       = Inr (to_error (New example_stack ''inner''))
   \<and> Error_Error foreign_ex (Wrap example_stack (to_error (New example_stack ''inner'')) ''outer'')
       = Inr ''outer: inner''"
proof -
  have n: "to_error (New example_stack ''inner'') \<noteq> NilError"
    by (simp add: New_def)
  have m: "error_Error foreign_ex (to_error (New example_stack ''inner'')) = Inr ''inner''"
    by (simp add: New_def newError_def)
  from Wrap_Unwrap_Error [OF n, of example_stack "''outer''" foreign_ex] m n
  show ?thesis by auto
qed

text \<open>
  C6. For every message (and every format string with arguments) and every stack,
  \<open>Wrap\<close> and \<open>Wrapf\<close> of the nil error return the nil pointer: no node is built
  and the stack is not read.
\<close>

theorem Wrap_nil:
  "Wrap st NilError M = None \<and> Wrapf sprintf st NilError format args = None"
  by (simp add: Wrap_def Wrapf_def)

text \<open>
  C7. For every message \<open>M\<close>, \<open>New(M).Error()\<close> is \<open>M\<close>, in both variants of the
  package.
\<close>

theorem New_Error:
  "Error_Error env (New st M) = Inr M \<and> Error_v1_Error (New_v1 st M) = Inr M"
  by (simp add: New_def newError_def Error_Error_def New_v1_def newError_v1_def)

section \<open>Properties of rendering\<close>

subsection \<open>The loops over the lines of a block\<close>

lemma upt_shift: "0 < n \<Longrightarrow> [0..<n] = 0 # map Suc [0..<n - 1]"
  by (cases n) (simp_all add: upt_conv_Cons map_Suc_upt del: upt_Suc)

lemma frame_lines_Cons:
  "i < length lines \<Longrightarrow>
   frame_lines lines s w idx i (h # hs) =
     source_line s w idx i h # frame_lines lines s w idx (Suc i) hs"
  by (simp add: Let_def source_line_def)

lemma frame_lines_v1_Cons:
  "i < length lines \<Longrightarrow>
   frame_lines_v1 lines s w idx i (h # hs) =
     ((source_line s w idx i h # (if of_nat i = idx then [caret_row w (lines ! i)] else []))
        @ fst (frame_lines_v1 lines s w idx (Suc i) hs),
      snd (frame_lines_v1 lines s w idx (Suc i) hs))"
  by (simp add: Let_def source_line_def caret_row_def index_def split: prod.splits)

lemma frame_lines_closed:
  "frame_lines lines s w idx i hs =
     map (\<lambda>j. source_line s w idx (i + j) (hs ! j)) [0..<min (length hs) (length lines - i)]"
proof (induction hs arbitrary: i)
  case Nil
  then show ?case by simp
next
  case (Cons h hs)
  show ?case
  proof (cases "i < length lines")
    case False
    then show ?thesis by (simp add: Cons.IH)
  next
    case True
    then have n: "min (length (h # hs)) (length lines - i) - 1 = min (length hs) (length lines - Suc i)"
      and pos: "0 < min (length (h # hs)) (length lines - i)"
      by auto
    have IH: "frame_lines lines s w idx (Suc i) hs =
        map (\<lambda>j. source_line s w idx (i + Suc j) (hs ! j)) [0..<min (length hs) (length lines - Suc i)]"
      using Cons.IH [of "Suc i"] unfolding add_Suc_shift .
    show ?thesis
      unfolding frame_lines_Cons [OF True] IH upt_shift [OF pos] n
      by (simp add: comp_def)
  qed
qed

lemma frame_lines_v1_closed:
  "frame_lines_v1 lines s w idx i hs =
     (concat (map (\<lambda>j. source_line s w idx (i + j) (hs ! j)
                       # (if of_nat (i + j) = idx then [caret_row w (lines ! (i + j))] else []))
               [0..<min (length hs) (length lines - i)]),
      Returned)"
proof (induction hs arbitrary: i)
  case Nil
  then show ?case by simp
next
  case (Cons h hs)
  show ?case
  proof (cases "i < length lines")
    case False
    then show ?thesis by (simp add: Cons.IH)
  next
    case True
    then have n: "min (length (h # hs)) (length lines - i) - 1 = min (length hs) (length lines - Suc i)"
      and pos: "0 < min (length (h # hs)) (length lines - i)"
      by auto
    have IH: "frame_lines_v1 lines s w idx (Suc i) hs =
     (concat (map (\<lambda>j. source_line s w idx (i + Suc j) (hs ! j)
                       # (if of_nat (i + Suc j) = idx then [caret_row w (lines ! (i + Suc j))] else []))
               [0..<min (length hs) (length lines - Suc i)]),
      Returned)"
      using Cons.IH [of "Suc i"] unfolding add_Suc_shift .
    show ?thesis
      unfolding frame_lines_v1_Cons [OF True] IH upt_shift [OF pos] n
      by (simp add: comp_def ac_simps)
  qed
qed

lemmas frame_lines_closed0 = frame_lines_closed [where i = 0, unfolded plus_nat.add_0 diff_zero]

lemmas frame_lines_v1_closed0 = frame_lines_v1_closed [where i = 0, unfolded plus_nat.add_0 diff_zero]

lemma printFrame_closed:
  assumes "readSourceContextLines fs (File f) (Line f) 1 = Inr (lines, startLine)"
  shows "printFrame fs hl f =
     frame_header f #
     map (\<lambda>i. source_line startLine (length (sprint_d (startLine + of_nat (length lines) - 1)))
                 (Line f - startLine) i
                 (strings_Split (highlightedBuf hl (strings_Join lines nl)) nl ! i))
       [0..<min (length (strings_Split (highlightedBuf hl (strings_Join lines nl)) nl))
               (length lines)]"
  using assms by (simp add: printFrame_def Let_def frame_lines_closed0)

lemma Fprint_frame_v1_closed:
  assumes "readSourceContextLines fs (File f) (Line f) 1 = Inr (lines, startLine)"
  shows "Fprint_frame_v1 fs hl f =
     (frame_header f #
      concat (map (\<lambda>i. source_line startLine (length (sprint_d (startLine + of_nat (length lines) - 1)))
                 (Line f - startLine) i
                 (strings_Split (highlightedBuf hl (strings_Join lines nl)) nl ! i)
               # (if of_nat i = Line f - startLine
                  then [caret_row (length (sprint_d (startLine + of_nat (length lines) - 1))) (lines ! i)]
                  else []))
       [0..<min (length (strings_Split (highlightedBuf hl (strings_Join lines nl)) nl))
               (length lines)]),
      Returned)"
  using assms by (simp add: Fprint_frame_v1_def Let_def frame_lines_v1_closed0)



text \<open>
  C10. For every frame whose context read succeeds, in both variants: one
  gutter-prefixed source line is written for each index below both the number of
  highlighted lines and the number of lines read, and nothing for the highlighted
  lines beyond; so the source lines written are never more than the lines read
  (\<open>printFrame\<close> writes the header and at most that many lines). The loop of the
  single-node variant, which reads \<open>lines[i]\<close>, returns: the index is always in
  range.
\<close>

theorem printFrame_lines_bounded:
  assumes "readSourceContextLines fs (File f) (Line f) 1 = Inr (lines, startLine)"
    and "hs = strings_Split (highlightedBuf hl (strings_Join lines nl)) nl"
    and "w = length (sprint_d (startLine + of_nat (length lines) - 1))"
    and "idx = Line f - startLine"
  shows "printFrame fs hl f =
           frame_header f #
           map (\<lambda>i. source_line startLine w idx i (hs ! i)) [0..<min (length hs) (length lines)]
       \<and> length (printFrame fs hl f) \<le> Suc (length lines)
       \<and> Fprint_frame_v1 fs hl f =
           (frame_header f #
            concat (map (\<lambda>i. source_line startLine w idx i (hs ! i)
                              # (if of_nat i = idx then [caret_row w (lines ! i)] else []))
                      [0..<min (length hs) (length lines)]),
            Returned)"
proof -
  have a: "printFrame fs hl f =
           frame_header f #
           map (\<lambda>i. source_line startLine w idx i (hs ! i)) [0..<min (length hs) (length lines)]"
    unfolding assms(2) assms(3) assms(4) by (rule printFrame_closed [OF assms(1)])
  have b: "Fprint_frame_v1 fs hl f =
           (frame_header f #
            concat (map (\<lambda>i. source_line startLine w idx i (hs ! i)
                              # (if of_nat i = idx then [caret_row w (lines ! i)] else []))
                      [0..<min (length hs) (length lines)]),
            Returned)"
    unfolding assms(2) assms(3) assms(4) by (rule Fprint_frame_v1_closed [OF assms(1)])
  have "length (printFrame fs hl f) \<le> Suc (length lines)"
    unfolding a by simp
  with a b show ?thesis by blast
qed

text \<open>
  A highlighter whose output has one line more than the block: the three lines of
  the block are written, the fourth is dropped.
\<close>

theorem printFrame_lines_bounded_witness:
  "readSourceContextLines fs20 (File frame10) (Line frame10) 1 = Inr ([''l09'', ''l10'', ''l11''], 9)
   \<and> strings_Split (highlightedBuf hl_more (strings_Join [''l09'', ''l10'', ''l11''] nl)) nl
       = [''l09'', ''l10'', ''l11'', ''surplus'']
   \<and> printFrame fs20 hl_more frame10 =
       [frame_header frame10,
        gray ''   9 | '' @ ''l09'' @ [nl],
        boldGray ''  10 | '' @ ''l10'' @ [nl],
        gray ''  11 | '' @ ''l11'' @ [nl]]
   \<and> Fprint_frame_v1 fs20 hl_more frame10 =
       ([frame_header frame10,
         gray ''   9 | '' @ ''l09'' @ [nl],
         boldGray ''  10 | '' @ ''l10'' @ [nl],
         boldGray ''     | '' @ red ''^^^'' @ [nl],
         gray ''  11 | '' @ ''l11'' @ [nl]], Returned)"
proof -
  let ?lines = "[''l09'', ''l10'', ''l11'']"
  let ?hs = "[''l09'', ''l10'', ''l11'', ''surplus'']"
  have r: "readSourceContextLines fs20 (File frame10) (Line frame10) 1 = Inr (?lines, 9)"
    by code_simp
  have h: "?hs = strings_Split (highlightedBuf hl_more (strings_Join ?lines nl)) nl"
    by code_simp
  have w: "2 = length (sprint_d (9 + of_nat (length ?lines) - 1))"
    by code_simp
  have i: "1 = Line frame10 - 9"
    by code_simp
  note th = printFrame_lines_bounded [where fs = fs20 and f = frame10 and hl = hl_more, OF r h w i]
  have m: "[0..<min (length ?hs) (length ?lines)] = [0, 1, 2]"
    by code_simp
  have s0: "source_line 9 2 1 0 (?hs ! 0) = gray ''   9 | '' @ ''l09'' @ [nl]"
    by code_simp
  have s1: "source_line 9 2 1 1 (?hs ! 1) = boldGray ''  10 | '' @ ''l10'' @ [nl]"
    by code_simp
  have s2: "source_line 9 2 1 2 (?hs ! 2) = gray ''  11 | '' @ ''l11'' @ [nl]"
    by code_simp
  have c: "caret_row 2 (?lines ! 1) = boldGray ''     | '' @ red ''^^^'' @ [nl]"
    by code_simp
  have a: "printFrame fs20 hl_more frame10 =
       [frame_header frame10,
        gray ''   9 | '' @ ''l09'' @ [nl],
        boldGray ''  10 | '' @ ''l10'' @ [nl],
        gray ''  11 | '' @ ''l11'' @ [nl]]"
    using th unfolding m by (simp only: list.map s0 s1 s2)
  have b: "Fprint_frame_v1 fs20 hl_more frame10 =
       ([frame_header frame10,
         gray ''   9 | '' @ ''l09'' @ [nl],
         boldGray ''  10 | '' @ ''l10'' @ [nl],
         boldGray ''     | '' @ red ''^^^'' @ [nl],
         gray ''  11 | '' @ ''l11'' @ [nl]], Returned)"
    by code_simp
  from r h [symmetric] a b show ?thesis by blast
qed

subsection \<open>The caret row\<close>

lemma concat_map_upt_split:
  "i < n \<Longrightarrow> concat (map g [0..<n]) = concat (map g [0..<i]) @ g i @ concat (map g [Suc i..<n])"
proof -
  assume "i < n"
  then have "[0..<n] = [0..<i] @ [i..<n]" and "[i..<n] = i # [Suc i..<n]"
    using upt_add_eq_append [of 0 i "n - i"] by (simp_all add: upt_conv_Cons)
  then have "[0..<n] = [0..<i] @ i # [Suc i..<n]"
    by simp
  then show ?thesis by simp
qed

lemma count_list_replicate_self: "count_list (replicate n c) c = n"
  by (induction n) simp_all

lemma count_carets: "count_list (caret_row w line) CHR ''^'' = length line"
proof -
  have g: "count_list (caret_gutter w) CHR ''^'' = 0"
    by (simp add: caret_gutter_def boldGray_def colorBoldGray_def colorReset_def
        strings_Repeat_def esc_def count_list_0_iff)
  show ?thesis
    by (simp add: caret_row_def g red_def colorRed_def colorReset_def strings_Repeat_def
        count_list_replicate_self esc_def nl_def)
qed

text \<open>
  C8, as amended. In the single-node variant, for every frame whose context read
  succeeds and whose failing line is written (line \<open>i\<close> of the block,
  \<open>i = Line - startLine\<close>, below the number of highlighted lines): the emphasised
  line is followed at once by the caret row, and the number of \<open>^\<close> in that row is
  \<open>len(lines[i])\<close>, the number of bytes of the line as read from the file and not
  of the highlighted line.
\<close>

theorem caret_row_length:
  assumes "readSourceContextLines fs (File f) (Line f) 1 = Inr (lines, startLine)"
    and "hs = strings_Split (highlightedBuf hl (strings_Join lines nl)) nl"
    and "w = length (sprint_d (startLine + of_nat (length lines) - 1))"
    and "i < length hs" and "i < length lines" and "of_nat i = Line f - startLine"
  shows "(\<exists>pre post. fst (Fprint_frame_v1 fs hl f) =
            pre @ [boldGray (gutter_text w (startLine + of_nat i)) @ hs ! i @ [nl],
                   caret_gutter w @ red (strings_Repeat CHR ''^'' (length (lines ! i))) @ [nl]] @ post)
       \<and> count_list (caret_gutter w @ red (strings_Repeat CHR ''^'' (length (lines ! i))) @ [nl]) CHR ''^''
           = length (lines ! i)"
proof -
  let ?idx = "Line f - startLine"
  let ?g = "\<lambda>i. source_line startLine w ?idx i (hs ! i)
               # (if of_nat i = ?idx then [caret_row w (lines ! i)] else [])"
  have i: "i < min (length hs) (length lines)"
    using assms(4,5) by simp
  have "fst (Fprint_frame_v1 fs hl f) = frame_header f # concat (map ?g [0..<min (length hs) (length lines)])"
    unfolding assms(2) assms(3)
    using Fprint_frame_v1_closed [OF assms(1), of hl] by simp
  also have "\<dots> = (frame_header f # concat (map ?g [0..<i])) @ ?g i
        @ concat (map ?g [Suc i..<min (length hs) (length lines)])"
    using concat_map_upt_split [OF i, of ?g] by simp
  finally have "fst (Fprint_frame_v1 fs hl f) =
      (frame_header f # concat (map ?g [0..<i]))
      @ [boldGray (gutter_text w (startLine + of_nat i)) @ hs ! i @ [nl],
         caret_gutter w @ red (strings_Repeat CHR ''^'' (length (lines ! i))) @ [nl]]
      @ concat (map ?g [Suc i..<min (length hs) (length lines)])"
    using assms(6) by (simp add: source_line_def caret_row_def)
  then have ex: "\<exists>pre post. fst (Fprint_frame_v1 fs hl f) =
            pre @ [boldGray (gutter_text w (startLine + of_nat i)) @ hs ! i @ [nl],
                   caret_gutter w @ red (strings_Repeat CHR ''^'' (length (lines ! i))) @ [nl]] @ post"
    by blast
  have "count_list (caret_gutter w @ red (strings_Repeat CHR ''^'' (length (lines ! i))) @ [nl]) CHR ''^''
           = length (lines ! i)"
    using count_carets [of w "lines ! i"] by (simp add: caret_row_def)
  with ex show ?thesis by blast
qed
text \<open>Line 10 of the file of twenty lines is \<open>l10\<close>: three carets.\<close>

theorem caret_row_length_witness:
  "readSourceContextLines fs20 (File frame10) (Line frame10) 1 = Inr ([''l09'', ''l10'', ''l11''], 9)
   \<and> fst (Fprint_frame_v1 fs20 hl_more frame10) =
       [frame_header frame10, gray ''   9 | '' @ ''l09'' @ [nl]]
       @ [boldGray (gutter_text 2 (9 + of_nat 1)) @ ''l10'' @ [nl],
          caret_gutter 2 @ red (strings_Repeat CHR ''^'' (length ''l10'')) @ [nl]]
       @ [gray ''  11 | '' @ ''l11'' @ [nl]]
   \<and> count_list (caret_gutter 2 @ red (strings_Repeat CHR ''^'' (length ''l10'')) @ [nl]) CHR ''^'' = 3"
proof -
  let ?lines = "[''l09'', ''l10'', ''l11'']"
  let ?hs = "[''l09'', ''l10'', ''l11'', ''surplus'']"
  have r: "readSourceContextLines fs20 (File frame10) (Line frame10) 1 = Inr (?lines, 9)"
    by code_simp
  have h: "?hs = strings_Split (highlightedBuf hl_more (strings_Join ?lines nl)) nl"
    by code_simp
  have w: "2 = length (sprint_d (9 + of_nat (length ?lines) - 1))"
    by code_simp
  have i: "of_nat 1 = Line frame10 - 9"
    by code_simp
  have l1: "1 < length ?hs" and l2: "1 < length ?lines"
    by simp_all
  from caret_row_length [where fs = fs20 and f = frame10 and hl = hl_more, OF r h w l1 l2 i]
  have c: "count_list (caret_gutter 2 @ red (strings_Repeat CHR ''^'' (length ''l10'')) @ [nl]) CHR ''^'' = 3"
    by simp
  have v: "fst (Fprint_frame_v1 fs20 hl_more frame10) =
       [frame_header frame10, gray ''   9 | '' @ ''l09'' @ [nl]]
       @ [boldGray (gutter_text 2 (9 + of_nat 1)) @ ''l10'' @ [nl],
          caret_gutter 2 @ red (strings_Repeat CHR ''^'' (length ''l10'')) @ [nl]]
       @ [gray ''  11 | '' @ ''l11'' @ [nl]]"
    by code_simp
  from r v c show ?thesis by blast
qed

text \<open>
  The claim as written fails where a character takes more than one byte: for the
  line of one character in two bytes the row has two carets.
\<close>

theorem caret_row_counts_bytes:
  "readSourceContextLines fs_utf8 (File frame_utf8) (Line frame_utf8) 1 = Inr ([e_acute], 1)
   \<and> fst (Fprint_frame_v1 fs_utf8 hl_fail frame_utf8) =
       [frame_header frame_utf8,
        boldGray ''  1 | '' @ e_acute @ [nl],
        caret_gutter 1 @ red ''^^'' @ [nl]]
   \<and> count_list (caret_gutter 1 @ red ''^^'' @ [nl]) CHR ''^'' = 2
   \<and> utf8_characters e_acute = 1"
  by code_simp

subsection \<open>The walk over the chain\<close>

lemma Fprint_loop_NilError:
  "Fprint_loop env fs hl NilError isFirst w = Some (w, Returned)"
  by (subst Fprint_loop.simps) simp

lemma Fprint_loop_step:
  assumes "cur \<noteq> NilError"
  shows "Fprint_loop env fs hl cur isFirst w =
     (if renders env cur
      then (case errors_Unwrap env cur of
              Inl p \<Rightarrow>
                Some (w @ (if isFirst then [] else [separator]) @ node_lines env fs hl cur, Panicked)
            | Inr next \<Rightarrow>
                Fprint_loop env fs hl next False
                  (w @ (if isFirst then [] else [separator]) @ node_lines env fs hl cur))
      else Some (w @ (if isFirst then [] else [separator]) @ node_lines env fs hl cur, Panicked))"
proof (cases cur)
  case NilError
  with assms show ?thesis by simp
next
  case NilPtr
  then show ?thesis by (subst Fprint_loop.simps) simp
next
  case (Ptr e)
  then show ?thesis by (subst Fprint_loop.simps) simp
next
  case (Foreign h)
  then show ?thesis
    by (subst Fprint_loop.simps) (simp split: sum.splits)
qed

lemma chain_Nil: "chain env cur [] \<Longrightarrow> cur = NilError"
  by (erule chain.cases) simp_all

lemma chain_hd: "chain env cur ns \<Longrightarrow> cur \<noteq> NilError \<Longrightarrow> \<exists>rest. ns = cur # rest"
  by (erule chain.cases) simp_all

lemma Fprint_loop_chain:
  assumes "chain env cur ns" and "\<forall>n \<in> set (butlast ns). renders env n"
  shows "Fprint_loop env fs hl cur isFirst w =
     Some (w @ (if isFirst then tl else id)
                 (concat (map (\<lambda>n. separator # node_lines env fs hl n) ns)),
           if list_all (body_returns env) ns then Returned else Panicked)"
  using assms
proof (induction arbitrary: isFirst w rule: chain.induct)
  case chain_nil
  show ?case by (simp add: Fprint_loop_NilError)
next
  case (chain_step cur "next" ns)
  let ?w = "w @ (if isFirst then [] else [separator]) @ node_lines env fs hl cur"
  show ?case
  proof (cases "ns = []")
    case True
    with chain_step.hyps(3) have nx: "next = NilError"
      by (simp add: chain_Nil)
    show ?thesis
      using chain_step.hyps(1,2) True nx
      by (simp add: Fprint_loop_step Fprint_loop_NilError body_returns_def)
  next
    case False
    with chain_step.prems have r: "renders env cur" and b: "\<forall>n \<in> set (butlast ns). renders env n"
      by simp_all
    have "Fprint_loop env fs hl cur isFirst w = Fprint_loop env fs hl next False ?w"
      using chain_step.hyps(1,2) r by (simp add: Fprint_loop_step)
    also have "\<dots> = Some (?w @ concat (map (\<lambda>n. separator # node_lines env fs hl n) ns),
           if list_all (body_returns env) ns then Returned else Panicked)"
      using chain_step.IH [OF b, of False ?w] by simp
    finally have "Fprint_loop env fs hl cur isFirst w =
        Some (?w @ concat (map (\<lambda>n. separator # node_lines env fs hl n) ns),
           if list_all (body_returns env) ns then Returned else Panicked)" .
    moreover have "body_returns env cur"
      using chain_step.hyps(2) r by (simp add: body_returns_def)
    ultimately show ?thesis
      by simp
  qed
next
  case (chain_stop cur p)
  then show ?case
    by (simp add: Fprint_loop_step body_returns_def)
qed

lemma Error_Fprint_chain:
  assumes "chain env (Ptr e) ns" and "\<forall>n \<in> set (butlast ns). renders env n"
  shows "Error_Fprint env fs hl (Some e) =
     Some (node_lines env fs hl (Ptr e)
             @ concat (map (\<lambda>n. separator # node_lines env fs hl n) (tl ns)),
           if list_all (body_returns env) ns then Returned else Panicked)"
proof -
  obtain rest where ns: "ns = Ptr e # rest"
    using chain_hd [OF assms(1)] by auto
  show ?thesis
    unfolding Error_Fprint_def to_error.simps
    using Fprint_loop_chain [OF assms, of fs hl True "[]"]
    by (simp add: ns del: node_lines.simps)
qed

lemma sep_hd: "separator \<noteq> [] \<and> hd separator = nl"
  by (simp add: separator_def)

lemma frame_lines_hd:
  "c \<in> set (frame_lines lines startLine w idx i hs) \<Longrightarrow> hd c = esc"
  by (induction hs arbitrary: i)
    (auto simp: Let_def boldGray_def gray_def colorBoldGray_def colorGray_def split: if_splits)

lemma printFrame_hd:
  "c \<in> set (printFrame fs hl f) \<Longrightarrow> hd c \<noteq> nl"
  by (auto simp: printFrame_def frame_header_def placeholder_def Let_def nl_def esc_def
      split: sum.splits prod.splits dest!: frame_lines_hd)

lemma node_lines_no_separator:
  "separator \<notin> set (node_lines env fs hl n)"
proof
  assume "separator \<in> set (node_lines env fs hl n)"
  then have "\<exists>c \<in> set (node_lines env fs hl n). hd c = nl"
    using sep_hd by blast
  then show False
    by (cases n) (auto simp: red_def colorRed_def nl_def esc_def dest: printFrame_hd split: sum.splits)
qed

lemma count_separators:
  "count_list (concat (map (\<lambda>n. separator # node_lines env fs hl n) ns)) separator = length ns"
  by (induction ns) (simp_all add: node_lines_no_separator count_list_0_iff)


text \<open>
  C4, as amended. For every error whose cause chain is a list of \<open>n\<close> values (the
  receiver is a node, so \<open>n \<ge> 1\<close>) and in which the message of every value before
  the last can be had without a panic: what \<open>Fprint\<close> has written when it returns
  or panics is the first node's lines, then for each later value of the chain, in
  the order of the cause links, the separator and that value's lines. The separator
  is the text of the \<open>Fprintf\<close> at the head of the loop: a newline, the italic
  code, \<open>Caused by: \<close> and the reset code. It is written \<open>n - 1\<close> times (no other
  string written equals it).
\<close>

theorem Fprint_separators:
  assumes "chain env (Ptr e) ns" and "\<forall>n \<in> set (butlast ns). renders env n"
  shows "\<exists>out r. Error_Fprint env fs hl (Some e) = Some (out, r)
       \<and> out = node_lines env fs hl (Ptr e)
                 @ concat (map (\<lambda>n. separator # node_lines env fs hl n) (tl ns))
       \<and> Suc (count_list out separator) = length ns
       \<and> separator = [CHR 0x0A, CHR 0x1B] @ ''[3mCaused by: '' @ [CHR 0x1B] @ ''[0m''"
proof -
  let ?out = "node_lines env fs hl (Ptr e)
                @ concat (map (\<lambda>n. separator # node_lines env fs hl n) (tl ns))"
  obtain rest where ns: "ns = Ptr e # rest"
    using chain_hd [OF assms(1)] by auto
  have a: "Error_Fprint env fs hl (Some e) =
      Some (?out, if list_all (body_returns env) ns then Returned else Panicked)"
    by (rule Error_Fprint_chain [OF assms])
  have "count_list ?out separator = length (tl ns)"
    by (simp add: count_separators node_lines_no_separator count_list_0_iff del: node_lines.simps)
  then have b: "Suc (count_list ?out separator) = length ns"
    by (simp add: ns)
  have c: "separator = [CHR 0x0A, CHR 0x1B] @ ''[3mCaused by: '' @ [CHR 0x1B] @ ''[0m''"
    by (simp add: separator_def nl_def formatItalic_def colorReset_def esc_def)
  from a b c show ?thesis by blast
qed

text \<open>
  A chain of three wrapped errors: two separators, and the text between the nodes.
\<close>

theorem Fprint_separators_witness:
  "chain_of_three =
     Some (MkError ''a'' [frame_of (example_stack ! 2), frame_of (example_stack ! 3)]
       (Ptr (MkError ''b'' [frame_of (example_stack ! 2), frame_of (example_stack ! 3)]
         (Ptr (MkError ''c'' [frame_of (example_stack ! 2), frame_of (example_stack ! 3)] NilError)))))
   \<and> chain foreign_ex (to_error chain_of_three)
       [to_error chain_of_three,
        Ptr (MkError ''b'' [frame_of (example_stack ! 2), frame_of (example_stack ! 3)]
          (Ptr (MkError ''c'' [frame_of (example_stack ! 2), frame_of (example_stack ! 3)] NilError))),
        Ptr (MkError ''c'' [frame_of (example_stack ! 2), frame_of (example_stack ! 3)] NilError)]
   \<and> (\<exists>out r. Error_Fprint foreign_ex fs20 hl_fail chain_of_three = Some (out, r)
         \<and> count_list out separator = 2)
   \<and> separator = [CHR 0x0A, CHR 0x1B] @ ''[3mCaused by: '' @ [CHR 0x1B] @ ''[0m''"
proof -
  let ?fr = "[frame_of (example_stack ! 2), frame_of (example_stack ! 3)]"
  let ?c = "MkError ''c'' ?fr NilError"
  let ?b = "MkError ''b'' ?fr (Ptr ?c)"
  let ?a = "MkError ''a'' ?fr (Ptr ?b)"
  have v: "chain_of_three = Some ?a"
    by code_simp
  have "chain foreign_ex (Ptr ?c) [Ptr ?c]"
    by (rule chain_step [OF _ _ chain_nil]) simp_all
  then have "chain foreign_ex (Ptr ?b) [Ptr ?b, Ptr ?c]"
    by (rule chain_step [rotated 2]) simp_all
  then have ch: "chain foreign_ex (Ptr ?a) [Ptr ?a, Ptr ?b, Ptr ?c]"
    by (rule chain_step [rotated 2]) simp_all
  have r: "\<forall>n \<in> set (butlast [Ptr ?a, Ptr ?b, Ptr ?c]). renders foreign_ex n"
    by simp
  from Fprint_separators [OF ch r, of fs20 hl_fail]
  obtain out res where o: "Error_Fprint foreign_ex fs20 hl_fail (Some ?a) = Some (out, res)"
    and n: "Suc (count_list out separator) = length [Ptr ?a, Ptr ?b, Ptr ?c]"
    and s: "separator = [CHR 0x0A, CHR 0x1B] @ ''[3mCaused by: '' @ [CHR 0x1B] @ ''[0m''"
    by blast
  from n have "count_list out separator = 2"
    by simp
  with o have "\<exists>out r. Error_Fprint foreign_ex fs20 hl_fail (Some ?a) = Some (out, r)
         \<and> count_list out separator = 2"
    by blast
  then have e: "\<exists>out r. Error_Fprint foreign_ex fs20 hl_fail chain_of_three = Some (out, r)
         \<and> count_list out separator = 2"
    unfolding v .
  have c: "chain foreign_ex (to_error chain_of_three) [to_error chain_of_three, Ptr ?b, Ptr ?c]"
    unfolding v to_error.simps by (rule ch)
  from v c e s show ?thesis
    by blast
qed

text \<open>
  The claim as written fails where \<open>Error()\<close> of a value before the last panics.
  The chain of \<open>silent_middle\<close> has three values: the node, the value \<open>2\<close>, whose
  \<open>Error()\<close> panics, and the value \<open>0\<close> behind it. \<open>Fprint\<close> writes the node and
  one separator and panics at \<open>currentErr.Error()\<close>: there is no second
  separator.
\<close>

theorem Fprint_separators_panic:
  "silent_middle =
     Some (MkError ''a'' [frame_of (example_stack ! 2), frame_of (example_stack ! 3)] (Foreign 2))
   \<and> chain foreign_ex (to_error silent_middle) [to_error silent_middle, Foreign 2, Foreign 0]
   \<and> Error_Fprint foreign_ex fs20 hl_fail silent_middle =
       Some ((red ''a'' @ [nl]) # printFrame fs20 hl_fail (frame_of (example_stack ! 2))
               @ printFrame fs20 hl_fail (frame_of (example_stack ! 3)) @ [separator],
             Panicked)
   \<and> count_list ((red ''a'' @ [nl]) # printFrame fs20 hl_fail (frame_of (example_stack ! 2))
               @ printFrame fs20 hl_fail (frame_of (example_stack ! 3)) @ [separator]) separator = 1"
proof -
  let ?fr = "[frame_of (example_stack ! 2), frame_of (example_stack ! 3)]"
  let ?a = "MkError ''a'' ?fr (Foreign 2)"
  have v: "silent_middle = Some ?a"
    by code_simp
  have "chain foreign_ex (Foreign 0) [Foreign 0]"
    by (rule chain_step [OF _ _ chain_nil]) (simp_all add: foreign_ex_def)
  then have "chain foreign_ex (Foreign 2) [Foreign 2, Foreign 0]"
    by (rule chain_step [rotated 2]) (simp_all add: foreign_ex_def)
  then have ch: "chain foreign_ex (Ptr ?a) [Ptr ?a, Foreign 2, Foreign 0]"
    by (rule chain_step [rotated 2]) simp_all
  have f: "Error_Fprint foreign_ex fs20 hl_fail silent_middle =
       Some ((red ''a'' @ [nl]) # printFrame fs20 hl_fail (frame_of (example_stack ! 2))
               @ printFrame fs20 hl_fail (frame_of (example_stack ! 3)) @ [separator],
             Panicked)"
    by code_simp
  have c: "count_list ((red ''a'' @ [nl]) # printFrame fs20 hl_fail (frame_of (example_stack ! 2))
               @ printFrame fs20 hl_fail (frame_of (example_stack ! 3)) @ [separator]) separator = 1"
    by code_simp
  have ch': "chain foreign_ex (to_error silent_middle) [to_error silent_middle, Foreign 2, Foreign 0]"
    unfolding v to_error.simps by (rule ch)
  from v ch' f c show ?thesis
    by blast
qed




subsection \<open>The fallback of the highlighter\<close>

lemma is_param_nl [simp]: "\<not> is_param nl"
  by (simp add: is_param_def nl_def)

lemma color_code_rest_nl [simp]: "color_code_rest (nl # b) = None"
  by (simp add: color_code_rest_def nl_def esc_def split: list.splits)

lemma dropWhile_param_nl:
  "dropWhile is_param (q @ nl # b) = (case dropWhile is_param q of [] \<Rightarrow> nl # b | m # r \<Rightarrow> m # r @ nl # b)"
  by (induction q) auto

lemma nl_neq [simp]: "nl \<noteq> CHR ''m''" "nl \<noteq> CHR ''[''" "nl \<noteq> esc" "esc \<noteq> nl"
  by (simp_all add: nl_def esc_def)

lemma dropWhile_hd_in: "dropWhile P q = m # r \<Longrightarrow> m \<in> set q \<and> \<not> P m"
  by (metis dropWhile_eq_Cons_conv in_set_conv_decomp)

lemma color_code_rest_append_nl:
  "a \<noteq> [] \<Longrightarrow> color_code_rest (a @ nl # t) = map_option (\<lambda>r. r @ nl # t) (color_code_rest a)"
proof -
  assume "a \<noteq> []"
  then obtain e a' where a: "a = e # a'" by (cases a) auto
  show ?thesis
  proof (cases a')
    case Nil
    then show ?thesis using a by (simp add: color_code_rest_def)
  next
    case (Cons b q)
    then show ?thesis
      using a
      by (auto simp: color_code_rest_def dropWhile_param_nl split: list.splits
          dest: dropWhile_hd_in)
  qed
qed

lemma strip_ansi_append_nl:
  "strip_ansi (a @ nl # t) = strip_ansi a @ nl # strip_ansi t"
proof (induction a rule: strip_ansi.induct)
  case 1
  then show ?case by (simp add: strip_ansi.simps(2))
next
  case (2 c cs)
  show ?case
  proof (cases "color_code_rest (c # cs)")
    case None
    then have "color_code_rest ((c # cs) @ nl # t) = None"
      by (simp add: color_code_rest_append_nl del: append_Cons)
    then show ?thesis
      using None "2.IH"(1) [OF None] by (simp add: strip_ansi.simps(2))
  next
    case (Some r)
    then have "color_code_rest ((c # cs) @ nl # t) = Some (r @ nl # t)"
      by (simp add: color_code_rest_append_nl del: append_Cons)
    then show ?thesis
      using Some "2.IH"(2) [OF Some] by (simp add: strip_ansi.simps(2))
  qed
qed
lemma color_code_rest_suffix:
  "color_code_rest s = Some r \<Longrightarrow> set r \<subseteq> set s"
proof -
  assume a: "color_code_rest s = Some r"
  then obtain e b q where s: "s = e # b # q"
    by (cases s; cases "tl s") (auto simp: color_code_rest_def)
  from a s obtain m where "dropWhile is_param q = m # r"
    by (auto simp: color_code_rest_def split: if_splits list.splits)
  then have "set r \<subseteq> set q"
    by (metis set_dropWhileD list.set_intros(2) subsetI)
  with s show ?thesis by auto
qed

lemma set_strip_ansi: "set (strip_ansi s) \<subseteq> set s"
proof (induction s rule: strip_ansi.induct)
  case 1
  then show ?case by simp
next
  case (2 c cs)
  show ?case
  proof (cases "color_code_rest (c # cs)")
    case None
    then show ?thesis using "2.IH"(1) [OF None] by (auto simp: strip_ansi.simps(2))
  next
    case (Some r)
    then show ?thesis
      using "2.IH"(2) [OF Some] color_code_rest_suffix [OF Some]
      by (auto simp: strip_ansi.simps(2))
  qed
qed

lemma color_code_rest_no_esc: "esc \<noteq> c \<Longrightarrow> color_code_rest (c # cs) = None"
  by (simp add: color_code_rest_def split: list.splits)

lemma strip_ansi_no_esc: "esc \<notin> set a \<Longrightarrow> strip_ansi (a @ t) = a @ strip_ansi t"
  by (induction a) (simp_all add: strip_ansi.simps(2) color_code_rest_no_esc)

lemma strip_ansi_codes [simp]:
  "strip_ansi (colorGray @ t) = strip_ansi t"
  "strip_ansi (colorBoldGray @ t) = strip_ansi t"
  "strip_ansi (colorReset @ t) = strip_ansi t"
  "strip_ansi (colorRed @ t) = strip_ansi t"
  "strip_ansi (colorYellow @ t) = strip_ansi t"
  "strip_ansi (formatItalic @ t) = strip_ansi t"
  by (simp_all add: colorGray_def colorBoldGray_def colorReset_def colorRed_def colorYellow_def
      formatItalic_def strip_ansi.simps(2) color_code_rest_def is_param_def)

lemma strings_Split_not_Nil [simp]: "strings_Split s sep \<noteq> []"
  by (induction s) (auto split: list.splits)

lemma strings_Split_no_sep: "sep \<notin> set a \<Longrightarrow> strings_Split a sep = [a]"
  by (induction a) auto

lemma strings_Split_append:
  "strings_Split (x @ sep # r) sep = strings_Split x sep @ strings_Split r sep"
  by (induction x) (auto split: list.splits)

lemma strings_Split_Join:
  "ls \<noteq> [] \<Longrightarrow> \<forall>l \<in> set ls. sep \<notin> set l \<Longrightarrow> strings_Split (strings_Join ls sep) sep = ls"
proof (induction ls sep rule: strings_Join.induct)
  case (1 sep)
  then show ?case by simp
next
  case (2 x sep)
  then show ?case by (simp add: strings_Split_no_sep)
next
  case (3 x y ys sep)
  then show ?case
    by (simp add: strings_Split_append strings_Split_no_sep)
qed

lemma strip_ansi_Join:
  "strip_ansi (strings_Join ls nl) = strings_Join (map strip_ansi ls) nl"
  by (induction ls nl rule: strings_Join.induct) (simp_all add: strip_ansi_append_nl)

lemma strings_Split_strip_ansi:
  "strings_Split (strip_ansi t) nl = map strip_ansi (strings_Split t nl)"
proof (induction "length t" arbitrary: t rule: less_induct)
  case less
  show ?case
  proof (cases "nl \<in> set t")
    case False
    then have "nl \<notin> set (strip_ansi t)"
      using set_strip_ansi [of t] by blast
    with False show ?thesis by (simp add: strings_Split_no_sep)
  next
    case True
    then obtain a b where t: "t = a @ nl # b" and a: "nl \<notin> set a"
      by (meson split_list_first)
    have sa: "nl \<notin> set (strip_ansi a)"
      using a set_strip_ansi [of a] by blast
    have "length b < length t" using t by simp
    then have IH: "strings_Split (strip_ansi b) nl = map strip_ansi (strings_Split b nl)"
      by (rule less)
    show ?thesis
      unfolding t strip_ansi_append_nl strings_Split_append
      by (simp add: strings_Split_no_sep a sa IH)
  qed
qed

lemma strip_ansi_concat:
  "\<forall>c \<in> set cs. c \<noteq> [] \<and> last c = nl \<Longrightarrow>
   strip_ansi (concat cs @ t) = concat (map strip_ansi cs) @ strip_ansi t"
proof (induction cs)
  case Nil
  then show ?case by simp
next
  case (Cons c cs)
  then have "c = butlast c @ [nl]"
    by (metis append_butlast_last_id list.set_intros(1))
  then obtain d where c: "c = d @ [nl]" ..
  have "strip_ansi (concat (c # cs) @ t) = strip_ansi (d @ nl # (concat cs @ t))"
    by (simp add: c)
  also have "\<dots> = strip_ansi d @ nl # strip_ansi (concat cs @ t)"
    by (rule strip_ansi_append_nl)
  also have "\<dots> = strip_ansi d @ nl # (concat (map strip_ansi cs) @ strip_ansi t)"
    using Cons by simp
  finally have "strip_ansi (concat (c # cs) @ t) =
      (strip_ansi d @ [nl]) @ concat (map strip_ansi cs) @ strip_ansi t"
    by simp
  moreover have "strip_ansi d @ [nl] = strip_ansi c"
    using strip_ansi_append_nl [of d "[]"] by (simp add: c)
  ultimately show ?case by simp
qed
lemma digit_char_not_esc: "d < 10 \<Longrightarrow> digit_char d \<noteq> esc"
proof
  assume d: "d < 10" and "digit_char d = esc"
  then have "of_char (char_of (48 + d)) = (of_char (CHR 0x1B) :: nat)"
    by (simp add: digit_char_def esc_def)
  then show False using d by simp
qed

lemma digits_no_esc: "esc \<notin> set (digits n)"
proof (induction n rule: digits.induct)
  case (1 n)
  show ?case
  proof (cases "n < 10")
    case True
    then show ?thesis
      using digit_char_not_esc [of n] by (subst digits.simps) auto
  next
    case False
    then show ?thesis
      using "1.IH" digit_char_not_esc [of "n mod 10"]
      by (subst digits.simps) auto
  qed
qed

lemma gutter_text_no_esc: "esc \<notin> set (gutter_text w n)"
  using digits_no_esc
  by (auto simp: gutter_text_def sprint_wd_def sprint_d_def esc_def)

lemma strip_ansi_source_line:
  "strip_ansi (source_line s w idx i h) = gutter_text w (s + of_nat i) @ strip_ansi h @ [nl]"
proof -
  have e: "strip_ansi (h @ [nl]) = strip_ansi h @ [nl]"
    using strip_ansi_append_nl [of h "[]"] by simp
  have g: "strip_ansi (gutter_text w n @ colorReset @ h @ [nl]) = gutter_text w n @ strip_ansi h @ [nl]" for n
    by (simp add: strip_ansi_no_esc [OF gutter_text_no_esc] e)
  show ?thesis
    by (simp add: source_line_def gray_def boldGray_def g)
qed

lemma source_line_ends: "source_line s w idx i h \<noteq> [] \<and> last (source_line s w idx i h) = nl"
  by (simp add: source_line_def)

lemma caret_row_ends: "caret_row w l \<noteq> [] \<and> last (caret_row w l) = nl"
  by (simp add: caret_row_def)

lemma frame_header_ends: "frame_header f \<noteq> [] \<and> last (frame_header f) = nl"
  by (simp add: frame_header_def Let_def)

lemma read_not_empty:
  "readSourceContextLines fs p c r = Inr (lines, s) \<Longrightarrow> lines \<noteq> []"
  by (auto simp: readSourceContextLines_def Let_def split: option.splits prod.splits if_splits)

lemma highlighted_lines:
  assumes "lines \<noteq> []" and "\<forall>l \<in> set lines. nl \<notin> set l"
    and "strip_ansi t = strip_ansi (strings_Join lines nl) @ r" and "r = [] \<or> hd r = nl"
  shows "\<exists>extra. map strip_ansi (strings_Split t nl) = map strip_ansi lines @ extra"
proof -
  have clean: "\<forall>l \<in> set (map strip_ansi lines). nl \<notin> set l"
    using assms(2) set_strip_ansi by fastforce
  have block: "strings_Split (strip_ansi (strings_Join lines nl)) nl = map strip_ansi lines"
    using assms(1) clean by (simp add: strip_ansi_Join strings_Split_Join)
  show ?thesis
  proof (cases r)
    case Nil
    then show ?thesis
      using assms(3) block strings_Split_strip_ansi [of t] by simp
  next
    case (Cons c r')
    then have "c = nl" using assms(4) by simp
    then have "strings_Split (strip_ansi t) nl = map strip_ansi lines @ strings_Split r' nl"
      using assms(3) Cons block by (simp add: strings_Split_append)
    then show ?thesis
      using strings_Split_strip_ansi [of t] by auto
  qed
qed
lemma map_source_line_strip:
  assumes "map strip_ansi hs = map strip_ansi lines @ extra" and "n \<le> length lines"
  shows "map strip_ansi (map (\<lambda>i. source_line s w idx i (hs ! i)) [0..<n]) =
         map strip_ansi (map (\<lambda>i. source_line s w idx i (lines ! i)) [0..<n])"
proof -
  have len: "length lines \<le> length hs"
    using assms(1) by (metis length_append length_map le_add1)
  have "strip_ansi (hs ! i) = strip_ansi (lines ! i)" if "i < n" for i
  proof -
    have i: "i < length lines" using that assms(2) by simp
    then have "map strip_ansi hs ! i = map strip_ansi lines ! i"
      using assms(1) by (simp add: nth_append)
    then show ?thesis using i len by simp
  qed
  then show ?thesis
    by (simp add: strip_ansi_source_line)
qed

lemma concat_map_strip:
  assumes "\<And>i. i < n \<Longrightarrow> strip_ansi (a i) = strip_ansi (b i)"
  shows "map strip_ansi (concat (map (\<lambda>i. a i # c i) [0..<n])) =
         map strip_ansi (concat (map (\<lambda>i. b i # c i) [0..<n]))"
  using assms by (induction n) simp_all

text \<open>
  When the engine fails without having written anything, the buffer holds the block
  itself. For every frame whose context read succeeds (the lines read hold no
  newline, as a \<open>bufio.Scanner\<close> yields them), in both variants: what is written
  then is what is written for the block unchanged, and against any engine that
  succeeds and changes only colour codes (its output, colour codes taken out, is the
  block, colour codes taken out, possibly followed by further lines), the non-colour
  characters written are the same. The renderer returns for every engine.
\<close>

lemma fallback_of_empty_failure:
  assumes "readSourceContextLines fs (File f) (Line f) 1 = Inr (lines, startLine)"
    and "\<forall>l \<in> set lines. nl \<notin> set l"
    and "failing (strings_Join lines nl) = ([], True)"
    and "working (strings_Join lines nl) = (t, False)"
    and "strip_ansi t = strip_ansi (strings_Join lines nl) @ r"
    and "r = [] \<or> hd r = nl"
  shows "printFrame fs failing f = printFrame fs (\<lambda>block. (block, False)) f
       \<and> strip_ansi (concat (printFrame fs failing f)) = strip_ansi (concat (printFrame fs working f))
       \<and> Fprint_frame_v1 fs failing f = Fprint_frame_v1 fs (\<lambda>block. (block, False)) f
       \<and> snd (Fprint_frame_v1 fs failing f) = Returned
       \<and> strip_ansi (concat (fst (Fprint_frame_v1 fs failing f)))
           = strip_ansi (concat (fst (Fprint_frame_v1 fs working f)))"
proof -
  let ?w = "length (sprint_d (startLine + of_nat (length lines) - 1))"
  let ?idx = "Line f - startLine"
  let ?hs = "strings_Split t nl"
  let ?n = "length lines"
  let ?id = "\<lambda>block :: string. (block, False)"
  have ne: "lines \<noteq> []"
    using assms(1) by (rule read_not_empty)
  have plain: "strings_Split (strings_Join lines nl) nl = lines"
    using ne assms(2) by (simp add: strings_Split_Join)
  have bf: "highlightedBuf failing (strings_Join lines nl) = strings_Join lines nl"
    by (simp add: highlightedBuf_def assms(3))
  have bi: "highlightedBuf ?id (strings_Join lines nl) = strings_Join lines nl"
    by (simp add: highlightedBuf_def)
  have bw: "highlightedBuf working (strings_Join lines nl) = t"
    by (simp add: highlightedBuf_def assms(4))
  obtain extra where hs: "map strip_ansi ?hs = map strip_ansi lines @ extra"
    using highlighted_lines [OF ne assms(2) assms(5) assms(6)] by blast
  then have len: "min (length ?hs) ?n = ?n"
    by (metis length_append length_map le_add1 min.absorb2)
  have pf: "printFrame fs failing f =
      frame_header f # map (\<lambda>i. source_line startLine ?w ?idx i (lines ! i)) [0..<?n]"
    using printFrame_closed [OF assms(1), of failing] by (simp add: bf plain)
  have ps: "printFrame fs ?id f =
      frame_header f # map (\<lambda>i. source_line startLine ?w ?idx i (lines ! i)) [0..<?n]"
    using printFrame_closed [OF assms(1), of ?id] by (simp add: bi plain)
  have pw: "printFrame fs working f =
      frame_header f # map (\<lambda>i. source_line startLine ?w ?idx i (?hs ! i)) [0..<?n]"
    using printFrame_closed [OF assms(1), of working] by (simp add: bw len)
  have vf: "Fprint_frame_v1 fs failing f =
      (frame_header f # concat (map (\<lambda>i. source_line startLine ?w ?idx i (lines ! i)
          # (if of_nat i = ?idx then [caret_row ?w (lines ! i)] else [])) [0..<?n]), Returned)"
    using Fprint_frame_v1_closed [OF assms(1), of failing] by (simp add: bf plain)
  have vs: "Fprint_frame_v1 fs ?id f =
      (frame_header f # concat (map (\<lambda>i. source_line startLine ?w ?idx i (lines ! i)
          # (if of_nat i = ?idx then [caret_row ?w (lines ! i)] else [])) [0..<?n]), Returned)"
    using Fprint_frame_v1_closed [OF assms(1), of ?id] by (simp add: bi plain)
  have vw: "Fprint_frame_v1 fs working f =
      (frame_header f # concat (map (\<lambda>i. source_line startLine ?w ?idx i (?hs ! i)
          # (if of_nat i = ?idx then [caret_row ?w (lines ! i)] else [])) [0..<?n]), Returned)"
    using Fprint_frame_v1_closed [OF assms(1), of working] by (simp add: bw len)
  have ends2: "\<forall>c \<in> set (printFrame fs hl f). c \<noteq> [] \<and> last c = nl" for hl
    using printFrame_closed [OF assms(1), of hl] frame_header_ends source_line_ends by auto
  have ends1: "\<forall>c \<in> set (fst (Fprint_frame_v1 fs hl f)). c \<noteq> [] \<and> last c = nl" for hl
    using Fprint_frame_v1_closed [OF assms(1), of hl] frame_header_ends source_line_ends
      caret_row_ends by (auto split: if_splits)
  have flat2: "strip_ansi (concat (printFrame fs hl f)) = concat (map strip_ansi (printFrame fs hl f))" for hl
    using strip_ansi_concat [OF ends2, of hl "[]"] by simp
  have flat1: "strip_ansi (concat (fst (Fprint_frame_v1 fs hl f))) =
      concat (map strip_ansi (fst (Fprint_frame_v1 fs hl f)))" for hl
    using strip_ansi_concat [OF ends1, of hl "[]"] by simp
  have m2: "map strip_ansi (printFrame fs failing f) = map strip_ansi (printFrame fs working f)"
    unfolding pf pw using map_source_line_strip [OF hs, of ?n startLine ?w ?idx] by simp
  have el: "strip_ansi (source_line startLine ?w ?idx i (?hs ! i)) =
            strip_ansi (source_line startLine ?w ?idx i (lines ! i))" if "i < ?n" for i
  proof -
    have "map strip_ansi ?hs ! i = map strip_ansi lines ! i"
      using hs that by (simp add: nth_append)
    moreover have "i < length ?hs" using that len by simp
    ultimately show ?thesis using that by (simp add: strip_ansi_source_line)
  qed
  have m1: "map strip_ansi (fst (Fprint_frame_v1 fs failing f)) =
            map strip_ansi (fst (Fprint_frame_v1 fs working f))"
    unfolding vf vw fst_conv list.map
    using concat_map_strip [of ?n "\<lambda>i. source_line startLine ?w ?idx i (lines ! i)"
        "\<lambda>i. source_line startLine ?w ?idx i (?hs ! i)"
        "\<lambda>i. if of_nat i = ?idx then [caret_row ?w (lines ! i)] else []"] el
    by simp
  have a: "printFrame fs failing f = printFrame fs ?id f"
    using pf ps by simp
  have b: "strip_ansi (concat (printFrame fs failing f)) = strip_ansi (concat (printFrame fs working f))"
    unfolding flat2 m2 ..
  have c: "Fprint_frame_v1 fs failing f = Fprint_frame_v1 fs ?id f"
    using vf vs by simp
  have d: "snd (Fprint_frame_v1 fs failing f) = Returned"
    using vf by simp
  have e: "strip_ansi (concat (fst (Fprint_frame_v1 fs failing f)))
           = strip_ansi (concat (fst (Fprint_frame_v1 fs working f)))"
    unfolding flat1 m1 ..
  from a b c d e show ?thesis by blast
qed

text \<open>
  Lines 9 to 11 of the file of twenty lines, with the engine that fails at once and
  with the one that colours: the same non-colour characters.
\<close>

lemma fallback_of_empty_failure_example:
  "hl_fail (strings_Join [''l09'', ''l10'', ''l11''] nl) = ([], True)
   \<and> printFrame fs20 hl_fail frame10 =
       [frame_header frame10,
        gray ''   9 | '' @ ''l09'' @ [nl],
        boldGray ''  10 | '' @ ''l10'' @ [nl],
        gray ''  11 | '' @ ''l11'' @ [nl]]
   \<and> printFrame fs20 hl_colour frame10 =
       [frame_header frame10,
        gray ''   9 | '' @ colorYellow @ ''l09'' @ [nl],
        boldGray ''  10 | '' @ ''l10'' @ [nl],
        gray ''  11 | '' @ ''l11'' @ colorReset @ [nl]]
   \<and> strip_ansi (concat (printFrame fs20 hl_fail frame10)) =
       strip_ansi (concat (printFrame fs20 hl_colour frame10))
   \<and> strip_ansi (concat (fst (Fprint_frame_v1 fs20 hl_fail frame10))) =
       strip_ansi (concat (fst (Fprint_frame_v1 fs20 hl_colour frame10)))"
proof -
  let ?lines = "[''l09'', ''l10'', ''l11'']"
  let ?t = "colorYellow @ ''l09'' @ [nl] @ ''l10'' @ [nl] @ ''l11'' @ colorReset @ [nl]"
  have r: "readSourceContextLines fs20 (File frame10) (Line frame10) 1 = Inr (?lines, 9)"
    by code_simp
  have n: "\<forall>l \<in> set ?lines. nl \<notin> set l"
    by (simp add: nl_def)
  have f: "hl_fail (strings_Join ?lines nl) = ([], True)"
    by (simp add: hl_fail_def)
  have c: "hl_colour (strings_Join ?lines nl) = (?t, False)"
    by (simp add: hl_colour_def)
  have s: "strip_ansi ?t = strip_ansi (strings_Join ?lines nl) @ [nl]"
    by code_simp
  have h: "[nl] = [] \<or> hd [nl] = nl"
    by simp
  note th = fallback_of_empty_failure
    [where fs = fs20 and f = frame10 and failing = hl_fail and working = hl_colour, OF r n f c s h]
  have pc: "printFrame fs20 hl_colour frame10 =
       [frame_header frame10,
        gray ''   9 | '' @ colorYellow @ ''l09'' @ [nl],
        boldGray ''  10 | '' @ ''l10'' @ [nl],
        gray ''  11 | '' @ ''l11'' @ colorReset @ [nl]]"
    by code_simp
  have pf: "printFrame fs20 hl_fail frame10 =
       [frame_header frame10,
        gray ''   9 | '' @ ''l09'' @ [nl],
        boldGray ''  10 | '' @ ''l10'' @ [nl],
        gray ''  11 | '' @ ''l11'' @ [nl]]"
    by code_simp
  from th have e2: "strip_ansi (concat (printFrame fs20 hl_fail frame10)) =
      strip_ansi (concat (printFrame fs20 hl_colour frame10))"
    and e1: "strip_ansi (concat (fst (Fprint_frame_v1 fs20 hl_fail frame10))) =
      strip_ansi (concat (fst (Fprint_frame_v1 fs20 hl_colour frame10)))"
    by blast+
  from f pf pc e2 e1 show ?thesis by blast
qed

text \<open>
  C9. The claim fails on the code where the engine fails after it has written part
  of its output: the buffer is not reset, so the block is appended to that part
  and the first line written holds both. Lines 9 to 11 of the file of twenty lines,
  with an engine that writes \<open>PART\<close> and fails: the first source line written is
  \<open>PARTl09\<close>, and the non-colour characters differ from those written with the
  engine that colours (which are those of the verbatim block), in both variants. The
  renderer returns.
\<close>

theorem highlight_failure_keeps_partial_output:
  "readSourceContextLines fs20 (File frame10) (Line frame10) 1 = Inr ([''l09'', ''l10'', ''l11''], 9)
   \<and> hl_partial (strings_Join [''l09'', ''l10'', ''l11''] nl) = (''PART'', True)
   \<and> hl_colour (strings_Join [''l09'', ''l10'', ''l11''] nl)
       = (colorYellow @ ''l09'' @ [nl] @ ''l10'' @ [nl] @ ''l11'' @ colorReset @ [nl], False)
   \<and> printFrame fs20 hl_partial frame10 =
       [frame_header frame10,
        gray ''   9 | '' @ ''PARTl09'' @ [nl],
        boldGray ''  10 | '' @ ''l10'' @ [nl],
        gray ''  11 | '' @ ''l11'' @ [nl]]
   \<and> strip_ansi (concat (printFrame fs20 hl_partial frame10)) =
       ''  at main.Gamma (a.go:10)'' @ [nl] @ ''   9 | PARTl09'' @ [nl] @ ''  10 | l10'' @ [nl]
       @ ''  11 | l11'' @ [nl]
   \<and> strip_ansi (concat (printFrame fs20 hl_colour frame10)) =
       ''  at main.Gamma (a.go:10)'' @ [nl] @ ''   9 | l09'' @ [nl] @ ''  10 | l10'' @ [nl]
       @ ''  11 | l11'' @ [nl]
   \<and> Fprint_frame_v1 fs20 hl_partial frame10 =
       ([frame_header frame10,
         gray ''   9 | '' @ ''PARTl09'' @ [nl],
         boldGray ''  10 | '' @ ''l10'' @ [nl],
         boldGray ''     | '' @ red ''^^^'' @ [nl],
         gray ''  11 | '' @ ''l11'' @ [nl]], Returned)
   \<and> strip_ansi (concat (fst (Fprint_frame_v1 fs20 hl_partial frame10))) =
       ''  at main.Gamma (a.go:10)'' @ [nl] @ ''   9 | PARTl09'' @ [nl] @ ''  10 | l10'' @ [nl]
       @ ''     | ^^^'' @ [nl] @ ''  11 | l11'' @ [nl]
   \<and> strip_ansi (concat (fst (Fprint_frame_v1 fs20 hl_colour frame10))) =
       ''  at main.Gamma (a.go:10)'' @ [nl] @ ''   9 | l09'' @ [nl] @ ''  10 | l10'' @ [nl]
       @ ''     | ^^^'' @ [nl] @ ''  11 | l11'' @ [nl]"
  by code_simp

end
